theory Spec2Isabelle
  imports Complex_Main "HOL-Library.Word" "HOL-Library.Multiset" "HOL-Library.Product_Lexorder"
    "HOL-Library.Log_Nat"
begin

unbundle bit_operations_syntax

section \<open>Machine types and errors\<close>

type_synonym u8 = "8 word"
type_synonym u32 = "32 word"
type_synonym u64 = "64 word"

text \<open>
  Every \<^verbatim>\<open>throw\<close> and failed \<^verbatim>\<open>assert\<close> of the modelled functions is a value of this
  type. The \<^verbatim>\<open>std::invalid_argument\<close> of the AddressGenerators constructor is \<open>InvalidSeed\<close>,
  that of \<^verbatim>\<open>AdjustPacketSizesToL3\<close> is \<open>InvalidArgument\<close>.
  A C++ member \<^verbatim>\<open>_x\<close> is the record field \<open>m_x\<close> throughout.
\<close>

datatype error = InvalidSeed | InvalidArgument | AssertionFailed

section \<open>Double-precision arithmetic\<close>

text \<open>
  A \<^verbatim>\<open>double\<close> is the real number it denotes. Every operation on doubles of the packet
  size generator and of \<^verbatim>\<open>MakeIcmpLayer\<close> is the exact operation on reals followed by
  \<open>rd\<close>, the rounding of IEEE 754 binary64:
  to the nearest number with a significand of 53 bits, a tie to the one whose significand
  is even. \<open>ilog2 x\<close> is the exponent of \<open>x\<close>, the integer \<open>k\<close> with \<open>2^k \<le> x < 2^(k+1)\<close>.
  The range of exponents is not bounded: a number that the modelled code computes from
  64-bit counts is 0 or lies between \<open>2^-64\<close> and \<open>2^65\<close>, far from the subnormal numbers
  and from infinity. A literal such as \<^verbatim>\<open>0.2\<close> is \<open>rd 0.2\<close>. The draws of the random
  generator, and the probabilities of the encapsulation variants with their running sum
  in \<^verbatim>\<open>ChooseEncaps\<close>, are reals that are not rounded.
\<close>

definition round_even :: "real \<Rightarrow> int" where
  "round_even x =
     (let f = \<lfloor>x\<rfloor>
      in if x - of_int f < 1 / 2 then f
         else if x - of_int f > 1 / 2 then f + 1
         else if even f then f else f + 1)"

definition ilog2 :: "real \<Rightarrow> int" where
  "ilog2 x = (if 1 \<le> x then bitlen \<lfloor>x\<rfloor> - 1 else - bitlen (\<lceil>1 / x\<rceil> - 1))"

definition rd :: "real \<Rightarrow> real" where
  "rd x =
     (if x = 0 then 0
      else sgn x * of_int (round_even (\<bar>x\<bar> * 2 powi (52 - ilog2 \<bar>x\<bar>)))
             * 2 powi (ilog2 \<bar>x\<bar> - 52))"

text \<open>
  The conversion of a \<^verbatim>\<open>uint64_t\<close> to \<^verbatim>\<open>double\<close> (rounded beyond \<open>2^53\<close>), and of a
  \<^verbatim>\<open>double\<close> that is not negative to \<^verbatim>\<open>uint64_t\<close> (truncated; C++ leaves the
  conversion of \<open>2^64\<close> or more undefined, here it wraps around).
\<close>

definition to_double :: "u64 \<Rightarrow> real" where
  "to_double w = rd (real (unat w))"

definition to_uint64 :: "real \<Rightarrow> u64" where
  "to_uint64 d = of_nat (nat \<lfloor>d\<rfloor>)"

section \<open>Address generators (addressgenerators.cpp)\<close>

text \<open>
  The members \<^verbatim>\<open>_seedState\<close>, \<^verbatim>\<open>_state\<close> and \<^verbatim>\<open>_capacity\<close>. Their declarations are in
  addressgenerators.h; the \<^verbatim>\<open>uint64_t(...)\<close> casts and the \<^verbatim>\<open>uint32_t\<close> return type of
  \<^verbatim>\<open>NextValue\<close> fix the first two as 32-bit, the capacity holds \<open>0x7fffffff - 1\<close> at most.
\<close>

record AddressGenerators =
  m_seedState :: u32
  m_state :: u32
  m_capacity :: u32

text \<open>\<^verbatim>\<open>uint64_t(x) * 48271 % 0x7fffffff\<close>, stored back into a 32-bit member.\<close>

definition lehmer_step :: "u32 \<Rightarrow> u32" where
  "lehmer_step x = ucast (((ucast x :: u64) * 48271) mod 0x7fffffff)"

definition NextSeed :: "AddressGenerators \<Rightarrow> AddressGenerators" where
  "NextSeed a =
     (let a1 = a\<lparr>m_capacity := 0x7fffffff - 1\<rparr>;
          a2 = a1\<lparr>m_seedState := lehmer_step (m_seedState a1)\<rparr>
      in a2\<lparr>m_state := m_seedState a2\<rparr>)"

definition NextValue :: "AddressGenerators \<Rightarrow> u32 \<times> AddressGenerators" where
  "NextValue a =
     (let a1 = (if m_capacity a = 0 then NextSeed a else a);
          a2 = a1\<lparr>m_capacity := m_capacity a1 - 1\<rparr>;
          a3 = a2\<lparr>m_state := lehmer_step (m_state a2)\<rparr>
      in (m_state a3, a3))"

text \<open>
  The constructor. \<^verbatim>\<open>NextSeed\<close> overwrites \<^verbatim>\<open>_state\<close> and \<^verbatim>\<open>_capacity\<close>, so the values
  they hold before it (0 here) do not reach the result.
\<close>

definition AddressGenerators_new :: "u32 \<Rightarrow> error + AddressGenerators" where
  "AddressGenerators_new seed =
     (if seed \<le> 0 \<or> seed \<ge> 0x7fffffff then Inl InvalidSeed
      else Inr (NextSeed \<lparr>m_seedState = seed, m_state = 0, m_capacity = 0\<rparr>))"

definition byte_of :: "u32 \<Rightarrow> nat \<Rightarrow> u8" where
  "byte_of v n = ucast (drop_bit n v AND 0xFF)"

definition GenerateIPv4 :: "AddressGenerators \<Rightarrow> u8 list \<times> AddressGenerators" where
  "GenerateIPv4 a =
     (let (v, a1) = NextValue a
      in ([byte_of v 24, byte_of v 16, byte_of v 8, byte_of v 0], a1))"

definition GenerateMac :: "AddressGenerators \<Rightarrow> u8 list \<times> AddressGenerators" where
  "GenerateMac a =
     (let (value0, a1) = NextValue a;
          (value1, a2) = NextValue a1
      in ([byte_of value0 24, byte_of value0 16, byte_of value0 8, byte_of value0 0,
           byte_of value1 24, byte_of value1 16], a2))"

text \<open>The first IPv4 address of a generator built from \<open>seed\<close>, or the constructor's error.\<close>

definition first_ipv4 :: "u32 \<Rightarrow> error + u8 list" where
  "first_ipv4 seed =
     (case AddressGenerators_new seed of
        Inl e \<Rightarrow> Inl e
      | Inr a \<Rightarrow> Inr (fst (GenerateIPv4 a)))"

section \<open>Random engines\<close>

text \<open>
  A pseudorandom engine is the sequence of raw numbers it will put out and the count of
  those already consumed. Two engines built from the same seed have the same sequence.
\<close>

record mt19937 =
  outputs :: "nat \<Rightarrow> nat"
  consumed :: nat

definition engine_next :: "mt19937 \<Rightarrow> nat \<times> mt19937" where
  "engine_next gen = (outputs gen (consumed gen), gen\<lparr>consumed := Suc (consumed gen)\<rparr>)"

text \<open>
  \<^verbatim>\<open>std::uniform_int_distribution<int64_t>(a, b)(gen)\<close>: a value of \<open>[a, b]\<close>, every one
  of them reachable. The standard library requires \<open>a \<le> b\<close>.
\<close>

definition uniform_int_distribution :: "int \<Rightarrow> int \<Rightarrow> mt19937 \<Rightarrow> int \<times> mt19937" where
  "uniform_int_distribution a b gen =
     (let (r, gen1) = engine_next gen in (a + int (r mod nat (b - a + 1)), gen1))"

text \<open>
  Modelled from the spec: the class RandomGenerator (randomgenerator.h and its
  implementation are absent). The spec gives one process-wide instance over a seeded
  32-bit Mersenne Twister, with \<^verbatim>\<open>RandomDouble(lo = 0, hi = 1)\<close> a uniform real and
  \<^verbatim>\<open>RandomUInt(lo, hi)\<close> a uniform integer of the inclusive range. The instance is passed
  and returned explicitly.
\<close>

type_synonym RandomGenerator = mt19937

definition RandomDouble :: "real \<Rightarrow> real \<Rightarrow> RandomGenerator \<Rightarrow> real \<times> RandomGenerator" where
  "RandomDouble lo hi rng =
     (let (r, rng1) = engine_next rng
      in (lo + (hi - lo) * (real (r mod 2 ^ 32) / 2 ^ 32), rng1))"

definition RandomUInt :: "u64 \<Rightarrow> u64 \<Rightarrow> RandomGenerator \<Rightarrow> u64 \<times> RandomGenerator" where
  "RandomUInt lo hi rng =
     (let (r, rng1) = engine_next rng
      in (lo + of_nat (r mod (unat (hi - lo) + 1)), rng1))"

text \<open>
  \<^verbatim>\<open>std::shuffle(first, last, std::default_random_engine())\<close>: the exchange loop of the
  standard library, position \<open>i\<close> swapped with a position of \<open>[0, i]\<close> chosen by the
  engine. \<open>dre\<close> is the output sequence of a default-constructed engine, the same at
  every call.
\<close>

definition swap_at :: "nat \<Rightarrow> nat \<Rightarrow> 'a list \<Rightarrow> 'a list" where
  "swap_at i j xs = xs[i := xs ! j, j := xs ! i]"

definition shuffle :: "(nat \<Rightarrow> nat) \<Rightarrow> 'a list \<Rightarrow> 'a list" where
  "shuffle dre xs =
     foldl (\<lambda>ys i. swap_at i (dre (i - 1) mod (i + 1)) ys) xs [1..<length xs]"

section \<open>Packet size generator (packetsizegeneratorslow.cpp)\<close>

definition MAX_ATTEMPTS :: nat where "MAX_ATTEMPTS = 2000"
definition MAX_DIFF_RATIO :: real where "MAX_DIFF_RATIO = rd 0.01"
definition MIN_DIFF :: real where "MIN_DIFF = 50"
definition GET_EXACT_MAX_DISTANCE :: nat where "GET_EXACT_MAX_DISTANCE = 1000"
definition DIFF_RATIO_FALLBACK_TO_UNIFORM :: real where
  "DIFF_RATIO_FALLBACK_TO_UNIFORM = rd 0.2"

record IntervalInfo =
  m_from :: u64
  m_to :: u64
  m_probability :: real

text \<open>\<^verbatim>\<open>std::accumulate\<close> with \<^verbatim>\<open>sum += inter._probability\<close>, an addition of doubles.\<close>

definition SumProbabilities :: "IntervalInfo list \<Rightarrow> real" where
  "SumProbabilities intervals = foldl (\<lambda>sum iv. rd (sum + m_probability iv)) 0 intervals"

text \<open>
  The \<^verbatim>\<open>for\<close> loop of \<^verbatim>\<open>GenerateRandomValue\<close>: the first interval whose running sum of
  probabilities reaches \<open>genVal\<close>, or none (the loop ends and \<^verbatim>\<open>value\<close> stays 0).
\<close>

fun pick_interval :: "IntervalInfo list \<Rightarrow> real \<Rightarrow> real \<Rightarrow> IntervalInfo option" where
  "pick_interval [] probSum genVal = None"
| "pick_interval (iv # rest) probSum genVal =
     (let probSum1 = rd (probSum + m_probability iv)
      in if genVal \<le> probSum1 then Some iv else pick_interval rest probSum1 genVal)"

definition GenerateRandomValue ::
  "IntervalInfo list \<Rightarrow> real \<Rightarrow> RandomGenerator \<Rightarrow> u64 \<times> RandomGenerator" where
  "GenerateRandomValue intervals intervalProbSum rng =
     (let (genVal, rng1) = RandomDouble 0 intervalProbSum rng
      in case pick_interval intervals 0 genVal of
           None \<Rightarrow> (0, rng1)
         | Some iv \<Rightarrow> RandomUInt (m_from iv) (m_to iv) rng1)"

text \<open>
  The members of the class. \<^verbatim>\<open>_assignedPkts\<close> and \<^verbatim>\<open>_assignedBytes\<close> are \<^verbatim>\<open>uint64_t\<close>
  counters that start at 0 (packetsizegeneratorslow.h).
\<close>

record PacketSizeGeneratorSlow =
  m_intervals :: "IntervalInfo list"
  m_numPkts :: u64
  m_numBytes :: u64
  m_values :: "u64 list"
  m_assignedPkts :: u64
  m_assignedBytes :: u64


text \<open>\<^verbatim>\<open>std::vector<uint64_t>::resize(n)\<close>: cut to \<open>n\<close> entries, or filled up with zeros.\<close>

definition resize :: "nat \<Rightarrow> u64 list \<Rightarrow> u64 list" where
  "resize n xs = take n xs @ replicate (n - length xs) 0"

text \<open>\<^verbatim>\<open>a > b ? a - b : b - a\<close>\<close>

definition absdiff :: "u64 \<Rightarrow> u64 \<Rightarrow> u64" where
  "absdiff a b = (if a > b then a - b else b - a)"

text \<open>The first loop of \<^verbatim>\<open>Generate\<close>: every slot gets a fresh value, \<^verbatim>\<open>valuesSum\<close> adds up.\<close>

fun initial_fill ::
  "IntervalInfo list \<Rightarrow> real \<Rightarrow> u64 list \<Rightarrow> u64 \<Rightarrow> RandomGenerator
    \<Rightarrow> u64 list \<times> u64 \<times> RandomGenerator" where
  "initial_fill intervals probSum [] valuesSum rng = ([], valuesSum, rng)"
| "initial_fill intervals probSum (v # vs) valuesSum rng =
     (let (newValue, rng1) = GenerateRandomValue intervals probSum rng;
          (vs1, valuesSum1, rng2) = initial_fill intervals probSum vs (valuesSum + newValue) rng1
      in (newValue # vs1, valuesSum1, rng2))"

text \<open>\<^verbatim>\<open>uint64_t interAvg = inter._from / 2 + inter._to / 2\<close>\<close>

definition interAvg :: "IntervalInfo \<Rightarrow> u64" where
  "interAvg iv = m_from iv div 2 + m_to iv div 2"

text \<open>The two \<^verbatim>\<open>for\<close> loops that zero probabilities, at the head of an attempt.\<close>

definition bias_intervals ::
  "u64 \<Rightarrow> u64 \<Rightarrow> u64 \<Rightarrow> u64 \<Rightarrow> IntervalInfo list \<Rightarrow> IntervalInfo list" where
  "bias_intervals valuesSum targetMin targetMax avgValue intervals =
     (if valuesSum < targetMin then
        map (\<lambda>iv. if interAvg iv < avgValue then iv\<lparr>m_probability := 0\<rparr> else iv) intervals
      else if valuesSum > targetMax then
        map (\<lambda>iv. if interAvg iv > avgValue then iv\<lparr>m_probability := 0\<rparr> else iv) intervals
      else intervals)"

text \<open>
  The local variables of \<^verbatim>\<open>Generate\<close> that its loops change, with the shared random
  generator: \<^verbatim>\<open>_values\<close>, \<^verbatim>\<open>valuesSum\<close>, \<^verbatim>\<open>bestValues\<close>, \<^verbatim>\<open>bestDiff\<close>.
\<close>

record gen_loop =
  st_values :: "u64 list"
  st_valuesSum :: u64
  st_bestValues :: "u64 list"
  st_bestDiff :: u64
  st_rng :: RandomGenerator

text \<open>
  The sweep \<^verbatim>\<open>for (auto& value : _values)\<close> inside an attempt. \<open>pre\<close> holds the slots
  already replaced, \<open>v # rest\<close> those still to visit; the \<^verbatim>\<open>break\<close> leaves \<open>rest\<close> as it is.
\<close>

fun sweep ::
  "IntervalInfo list \<Rightarrow> real \<Rightarrow> u64 \<Rightarrow> u64 \<Rightarrow> u64 \<Rightarrow> u64 list \<Rightarrow> u64 list \<Rightarrow> gen_loop
    \<Rightarrow> gen_loop" where
  "sweep intervals probSum targetMin targetMax desiredBytes pre [] st = st"
| "sweep intervals probSum targetMin targetMax desiredBytes pre (v # rest) st =
     (let (newValue, rng1) = GenerateRandomValue intervals probSum (st_rng st);
          valuesSum = st_valuesSum st - v + newValue;
          vals = pre @ newValue # rest;
          st1 = st\<lparr>st_values := vals, st_valuesSum := valuesSum, st_rng := rng1\<rparr>
      in if valuesSum \<ge> targetMin \<and> valuesSum \<le> targetMax then st1
         else
           let diff = absdiff valuesSum desiredBytes;
               st2 = (if diff < st_bestDiff st1
                      then st1\<lparr>st_bestValues := vals, st_bestDiff := diff\<rparr> else st1)
           in sweep intervals probSum targetMin targetMax desiredBytes (pre @ [newValue]) rest st2)"

text \<open>
  The words of the claim about the biasing step, with the exact midpoint and the exact
  average: the interval gets probability zero.
\<close>

definition claim_midpoint :: "IntervalInfo \<Rightarrow> real" where
  "claim_midpoint iv = (real (unat (m_from iv)) + real (unat (m_to iv))) / 2"

definition claim_zeroed :: "u64 \<Rightarrow> u64 \<Rightarrow> u64 \<Rightarrow> u64 \<Rightarrow> IntervalInfo \<Rightarrow> bool" where
  "claim_zeroed valuesSum targetMin targetMax desiredPkts iv =
     ((valuesSum < targetMin
         \<and> claim_midpoint iv < real (unat valuesSum) / real (unat desiredPkts))
      \<or> (valuesSum > targetMax
         \<and> claim_midpoint iv > real (unat valuesSum) / real (unat desiredPkts)))"

text \<open>The intervals of an attempt as the claim has them.\<close>

definition claim_biased ::
  "u64 \<Rightarrow> u64 \<Rightarrow> u64 \<Rightarrow> u64 \<Rightarrow> IntervalInfo list \<Rightarrow> IntervalInfo list" where
  "claim_biased valuesSum targetMin targetMax desiredPkts intervals =
     map (\<lambda>iv. if claim_zeroed valuesSum targetMin targetMax desiredPkts iv
               then iv\<lparr>m_probability := 0\<rparr> else iv) intervals"

text \<open>
  The same words with the whole-number midpoint (each bound halved, then added) and the
  whole-number average, and the intervals of an attempt that follow from them: an interval
  that is zeroed loses its probability, every other interval is kept as it is.
\<close>

definition amended_zeroed :: "u64 \<Rightarrow> u64 \<Rightarrow> u64 \<Rightarrow> u64 \<Rightarrow> IntervalInfo \<Rightarrow> bool" where
  "amended_zeroed valuesSum targetMin targetMax desiredPkts iv =
     ((valuesSum < targetMin
         \<and> m_from iv div 2 + m_to iv div 2 < valuesSum div desiredPkts)
      \<or> (targetMin \<le> valuesSum \<and> valuesSum > targetMax
         \<and> m_from iv div 2 + m_to iv div 2 > valuesSum div desiredPkts))"

definition amended_biased ::
  "u64 \<Rightarrow> u64 \<Rightarrow> u64 \<Rightarrow> u64 \<Rightarrow> IntervalInfo list \<Rightarrow> IntervalInfo list" where
  "amended_biased valuesSum targetMin targetMax desiredPkts intervals =
     map (\<lambda>iv. if amended_zeroed valuesSum targetMin targetMax desiredPkts iv
               then iv\<lparr>m_probability := 0\<rparr> else iv) intervals"

text \<open>
  The body of the \<^verbatim>\<open>while\<close> loop after the biasing, over the biased intervals: the new
  sum of probabilities, the sweep, and the last comparison with the best difference.
\<close>

definition attempt_with :: "IntervalInfo list \<Rightarrow> u64 \<Rightarrow> u64 \<Rightarrow> u64 \<Rightarrow> gen_loop \<Rightarrow> gen_loop" where
  "attempt_with biased targetMin targetMax desiredBytes st =
     (let probSum = SumProbabilities biased;
          st1 = sweep biased probSum targetMin targetMax desiredBytes [] (st_values st) st;
          diff = absdiff (st_valuesSum st1) desiredBytes
      in if diff < st_bestDiff st1
         then st1\<lparr>st_bestValues := st_values st1, st_bestDiff := diff\<rparr> else st1)"

text \<open>
  The \<^verbatim>\<open>while\<close> loop, by the attempts left. The intervals are restored after every
  attempt (\<^verbatim>\<open>intervals = origIntervals\<close>), so each attempt biases the original ones.
\<close>

fun attempts ::
  "nat \<Rightarrow> IntervalInfo list \<Rightarrow> u64 \<Rightarrow> u64 \<Rightarrow> u64 \<Rightarrow> u64 \<Rightarrow> gen_loop \<Rightarrow> gen_loop" where
  "attempts 0 intervals desiredPkts targetMin targetMax desiredBytes st = st"
| "attempts (Suc numAttempts) intervals desiredPkts targetMin targetMax desiredBytes st =
     (if st_valuesSum st < targetMin \<or> st_valuesSum st > targetMax then
        let avgValue = st_valuesSum st div desiredPkts;
            biased = bias_intervals (st_valuesSum st) targetMin targetMax avgValue intervals
        in attempts numAttempts intervals desiredPkts targetMin targetMax desiredBytes
             (attempt_with biased targetMin targetMax desiredBytes st)
      else st)"

text \<open>
  \<^verbatim>\<open>double maxDiff = std::max<uint64_t>(MAX_DIFF_RATIO * desiredBytes, MIN_DIFF)\<close>: the
  product is one of doubles, both arguments are then converted to \<^verbatim>\<open>uint64_t\<close>, and the
  maximum back to \<^verbatim>\<open>double\<close>. The two targets are computed in doubles and stored as
  \<^verbatim>\<open>uint64_t\<close>.
\<close>

definition maxDiff_of :: "u64 \<Rightarrow> real" where
  "maxDiff_of desiredBytes =
     to_double (max (to_uint64 (rd (MAX_DIFF_RATIO * to_double desiredBytes)))
                    (to_uint64 MIN_DIFF))"

definition targetMin_of :: "u64 \<Rightarrow> u64" where
  "targetMin_of desiredBytes =
     (if maxDiff_of desiredBytes < to_double desiredBytes
      then to_uint64 (rd (to_double desiredBytes - maxDiff_of desiredBytes)) else 0)"

definition targetMax_of :: "u64 \<Rightarrow> u64" where
  "targetMax_of desiredBytes = to_uint64 (rd (to_double desiredBytes + maxDiff_of desiredBytes))"

text \<open>
  The state of \<^verbatim>\<open>Generate\<close> when it reaches the \<^verbatim>\<open>while\<close> loop: every slot filled once,
  and the first pool taken as the best.
\<close>

definition initial_state ::
  "IntervalInfo list \<Rightarrow> u64 \<Rightarrow> u64 list \<Rightarrow> RandomGenerator \<Rightarrow> gen_loop" where
  "initial_state intervals desiredBytes vals rng =
     (let probSum = SumProbabilities intervals;
          (vals1, valuesSum, rng1) = initial_fill intervals probSum vals 0 rng;
          bestDiff = absdiff valuesSum desiredBytes
      in \<lparr>st_values = vals1, st_valuesSum = valuesSum, st_bestValues = vals1,
          st_bestDiff = bestDiff, st_rng = rng1\<rparr>)"

text \<open>
  The part of \<^verbatim>\<open>Generate\<close> between its early returns and its final choice: the first
  fill, the targets, and at most \<open>MAX_ATTEMPTS\<close> attempts.
\<close>

definition search :: "IntervalInfo list \<Rightarrow> u64 \<Rightarrow> u64 \<Rightarrow> u64 list \<Rightarrow> RandomGenerator \<Rightarrow> gen_loop" where
  "search intervals desiredPkts desiredBytes vals rng =
     attempts MAX_ATTEMPTS intervals desiredPkts (targetMin_of desiredBytes)
       (targetMax_of desiredBytes) desiredBytes (initial_state intervals desiredBytes vals rng)"

text \<open>\<^verbatim>\<open>double finalDiffRatio = double(bestDiff) / double(desiredBytes)\<close>\<close>

definition finalDiffRatio :: "gen_loop \<Rightarrow> u64 \<Rightarrow> real" where
  "finalDiffRatio st desiredBytes = rd (to_double (st_bestDiff st) / to_double desiredBytes)"

definition Generate ::
  "(nat \<Rightarrow> nat) \<Rightarrow> u64 \<Rightarrow> u64 \<Rightarrow> PacketSizeGeneratorSlow \<Rightarrow> RandomGenerator
    \<Rightarrow> PacketSizeGeneratorSlow \<times> RandomGenerator" where
  "Generate dre desiredPkts desiredBytes s rng =
     (let s1 = s\<lparr>m_values := resize (unat desiredPkts) (m_values s)\<rparr>
      in if desiredPkts = 0 \<or> desiredBytes = 0 then (s1, rng)
         else if desiredPkts = 1 then (s1\<lparr>m_values := (m_values s1)[0 := desiredBytes]\<rparr>, rng)
         else
           let st = search (m_intervals s) desiredPkts desiredBytes (m_values s1) rng
           in if finalDiffRatio st desiredBytes > DIFF_RATIO_FALLBACK_TO_UNIFORM
              then (s1\<lparr>m_values :=
                          replicate (length (st_values st)) (desiredBytes div desiredBytes)\<rparr>,
                    st_rng st)
              else (s1\<lparr>m_values := shuffle dre (st_bestValues st)\<rparr>, st_rng st))"


definition GetValue ::
  "PacketSizeGeneratorSlow \<Rightarrow> RandomGenerator \<Rightarrow> u64 \<times> PacketSizeGeneratorSlow \<times> RandomGenerator" where
  "GetValue s rng =
     (let (v, s1, rng1) =
            (if m_values s \<noteq> [] then (last (m_values s), s\<lparr>m_values := butlast (m_values s)\<rparr>, rng)
             else
               let (r, rng') =
                     GenerateRandomValue (m_intervals s) (SumProbabilities (m_intervals s)) rng
               in (r, s, rng'))
      in (v, s1\<lparr>m_assignedPkts := m_assignedPkts s1 + 1,
                 m_assignedBytes := m_assignedBytes s1 + v\<rparr>, rng1))"

text \<open>
  The search loop of \<^verbatim>\<open>GetValueExact\<close> over the window \<open>[start, end)\<close>: the pair is
  \<^verbatim>\<open>(closest, closestDiff)\<close>, starting from \<open>(0, value)\<close>.
\<close>

definition find_closest :: "u64 list \<Rightarrow> u64 \<Rightarrow> nat \<Rightarrow> nat \<Rightarrow> nat \<times> u64" where
  "find_closest vals v start end =
     foldl (\<lambda>(closest, closestDiff) i.
              let diff = absdiff (vals ! i) v
              in if diff < closestDiff then (i, diff) else (closest, closestDiff))
       (0, v) [start..<end]"

definition GetValueExact ::
  "u64 \<Rightarrow> PacketSizeGeneratorSlow \<Rightarrow> RandomGenerator \<Rightarrow> PacketSizeGeneratorSlow \<times> RandomGenerator" where
  "GetValueExact v s rng =
     (if length (m_values s) = 0
      then (s\<lparr>m_assignedPkts := m_assignedPkts s + 1, m_assignedBytes := m_assignedBytes s + v\<rparr>,
            rng)
      else
        let n = length (m_values s);
            (start, end, rng1) =
              (if n \<le> GET_EXACT_MAX_DISTANCE then (0, n, rng)
               else
                 let (r, rng') = RandomUInt 0 (of_nat (n - GET_EXACT_MAX_DISTANCE)) rng
                 in (unat r, unat r + GET_EXACT_MAX_DISTANCE, rng'));
            closest = fst (find_closest (m_values s) v start end);
            vals = butlast (swap_at closest (n - 1) (m_values s))
        in (s\<lparr>m_values := vals, m_assignedPkts := m_assignedPkts s + 1,
               m_assignedBytes := m_assignedBytes s + v\<rparr>, rng1))"

text \<open>
  A value lies inside the union of the intervals; the intervals are well formed (there is
  one, each has \<open>_from \<le> _to\<close> as \<^verbatim>\<open>RandomUInt\<close> needs, and no probability is negative);
  and every value of the pool and of the best pool seen lies inside the union.
\<close>

definition in_intervals :: "IntervalInfo list \<Rightarrow> u64 \<Rightarrow> bool" where
  "in_intervals intervals v = (\<exists>iv \<in> set intervals. m_from iv \<le> v \<and> v \<le> m_to iv)"

definition intervals_wf :: "IntervalInfo list \<Rightarrow> bool" where
  "intervals_wf intervals =
     (intervals \<noteq> [] \<and> (\<forall>iv \<in> set intervals. m_from iv \<le> m_to iv \<and> 0 \<le> m_probability iv))"

definition pool_in :: "IntervalInfo list \<Rightarrow> gen_loop \<Rightarrow> bool" where
  "pool_in intervals st =
     ((\<forall>v \<in> set (st_values st). in_intervals intervals v)
      \<and> (\<forall>v \<in> set (st_bestValues st). in_intervals intervals v))"

section \<open>The legacy value generator (valuegenerator.cpp)\<close>

text \<open>
  The class ValueGenerator is an older generator that \<^verbatim>\<open>Flow::PlanPacketsSizes\<close> does not
  construct. Both branches of its biasing step test \<^verbatim>\<open>interAvg < avgValue\<close>.
\<close>

definition ValueGenerator_bias ::
  "u64 \<Rightarrow> u64 \<Rightarrow> u64 \<Rightarrow> IntervalInfo list \<Rightarrow> IntervalInfo list" where
  "ValueGenerator_bias valuesSum targetMin avgValue intervals =
     (if valuesSum < targetMin then
        map (\<lambda>iv. if interAvg iv < avgValue then iv\<lparr>m_probability := 0\<rparr> else iv) intervals
      else
        map (\<lambda>iv. if interAvg iv < avgValue then iv\<lparr>m_probability := 0\<rparr> else iv) intervals)"

section \<open>Flow (flow.cpp)\<close>

datatype L3Protocol = L3_Unknown | Ipv4 | Ipv6

datatype Direction = Dir_Unknown | Forward | Reverse

datatype Layer = IcmpRandom | IcmpEcho | Icmpv6Random | Icmpv6Echo

text \<open>
  Modelled from the spec: the class Timeval (timeval.h is absent), seconds and
  microseconds of a \<^verbatim>\<open>timeval\<close>, ordered by seconds first and microseconds second.
\<close>

record Timeval =
  tv_sec :: int
  tv_usec :: int

definition tv_key :: "Timeval \<Rightarrow> int \<times> int" where
  "tv_key t = (tv_sec t, tv_usec t)"

definition tv_less :: "Timeval \<Rightarrow> Timeval \<Rightarrow> bool" where
  "tv_less a b = (if tv_sec a = tv_sec b then tv_usec a < tv_usec b else tv_sec a < tv_sec b)"

definition tv_le :: "Timeval \<Rightarrow> Timeval \<Rightarrow> bool" where
  "tv_le a b = (\<not> tv_less b a)"

text \<open>The fields of a packet plan that the planner itself reads or writes (packet.h).\<close>

record Packet =
  m_direction :: Direction
  m_timestamp :: Timeval
  m_size :: u64
  m_isFinished :: bool

text \<open>
  The members of Flow that the modelled functions read: the profile's counts
  (\<^verbatim>\<open>uint64_t\<close>), its two timestamps and the packet plans.
\<close>

record Flow =
  m_fwdPackets :: u64
  m_revPackets :: u64
  m_fwdBytes :: u64
  m_revBytes :: u64
  m_tsFirst :: Timeval
  m_tsLast :: Timeval
  m_packets :: "Packet list"

text \<open>
  The header sizes are \<^verbatim>\<open>sizeof\<close> of structures of the packet library, which is not part
  of the repository: they are parameters.
\<close>

record HeaderSizes =
  ICMP_HDR_SIZE :: int
  ICMPV6_HDR_SIZE :: int
  IPV4_HDR_SIZE :: int
  IPV6_HDR_SIZE :: int
  UDP_HDR_SIZE :: int

definition ICMP_UNREACH_PKT_SIZE :: "HeaderSizes \<Rightarrow> int" where
  "ICMP_UNREACH_PKT_SIZE hs = ICMP_HDR_SIZE hs + IPV4_HDR_SIZE hs + UDP_HDR_SIZE hs"

definition ICMPV6_UNREACH_PKT_SIZE :: "HeaderSizes \<Rightarrow> int" where
  "ICMPV6_UNREACH_PKT_SIZE hs = ICMPV6_HDR_SIZE hs + 4 + IPV6_HDR_SIZE hs + UDP_HDR_SIZE hs"

text \<open>
  The two doubles that \<^verbatim>\<open>MakeIcmpLayer\<close> computes first. \<^verbatim>\<open>min\<close> and \<^verbatim>\<open>max\<close> are the
  counts converted to double, their quotient and the difference from 1.0 are operations
  on doubles. The quotient of the byte and packet counts is a \<^verbatim>\<open>uint64_t\<close> division,
  converted to double afterwards.
\<close>

definition fwdRevRatioDiff :: "Flow \<Rightarrow> real" where
  "fwdRevRatioDiff flow =
     (if m_fwdPackets flow + m_revPackets flow > 0 then
        rd (1.0 - rd (to_double (min (m_fwdPackets flow) (m_revPackets flow))
                      / to_double (max (m_fwdPackets flow) (m_revPackets flow))))
      else 1.0)"

definition bytesPerPkt :: "Flow \<Rightarrow> real" where
  "bytesPerPkt flow =
     (if m_fwdPackets flow + m_revPackets flow > 0 then
        to_double ((m_fwdBytes flow + m_revBytes flow)
                   div (m_fwdPackets flow + m_revPackets flow))
      else 0)"

text \<open>\<^verbatim>\<open>1.10 * ICMP_UNREACH_PKT_SIZE\<close>: the \<^verbatim>\<open>int\<close> converted to double, times the literal.\<close>

definition unreach_limit :: "int \<Rightarrow> real" where
  "unreach_limit pktSize = rd (rd 1.10 * rd (real_of_int pktSize))"

definition MakeIcmpLayer :: "HeaderSizes \<Rightarrow> L3Protocol \<Rightarrow> Flow \<Rightarrow> error + Layer" where
  "MakeIcmpLayer hs l3Proto flow =
     (if \<not> (l3Proto = Ipv4 \<or> l3Proto = Ipv6) then Inl AssertionFailed
      else if l3Proto = Ipv4 then
        (if (m_fwdPackets flow \<le> 3 \<or> m_revPackets flow \<le> 3)
            \<and> bytesPerPkt flow \<le> unreach_limit (ICMP_UNREACH_PKT_SIZE hs)
         then Inr IcmpRandom
         else if fwdRevRatioDiff flow \<le> rd 0.2 then Inr IcmpEcho
         else if bytesPerPkt flow \<le> unreach_limit (ICMP_UNREACH_PKT_SIZE hs)
         then Inr IcmpRandom
         else Inr IcmpEcho)
      else
        (if (m_fwdPackets flow \<le> 3 \<or> m_revPackets flow \<le> 3)
            \<and> bytesPerPkt flow \<le> unreach_limit (ICMPV6_UNREACH_PKT_SIZE hs)
         then Inr Icmpv6Random
         else if fwdRevRatioDiff flow \<le> rd 0.2 then Inr Icmpv6Echo
         else if bytesPerPkt flow \<le> unreach_limit (ICMPV6_UNREACH_PKT_SIZE hs)
         then Inr Icmpv6Random
         else Inr Icmpv6Echo))"

text \<open>
  The selection rule in the words of the claim, over the profile's numbers and in exact
  arithmetic: \<open>ratioDiff = 1 - min / max\<close> (1 if both counts are zero) and
  \<open>bpp = (Bf + Br) / (Pf + Pr)\<close>.
\<close>

definition claim_ratioDiff :: "nat \<Rightarrow> nat \<Rightarrow> real" where
  "claim_ratioDiff Pf Pr =
     (if Pf = 0 \<and> Pr = 0 then 1 else 1 - real (min Pf Pr) / real (max Pf Pr))"

definition claim_bpp :: "nat \<Rightarrow> nat \<Rightarrow> nat \<Rightarrow> nat \<Rightarrow> real" where
  "claim_bpp Pf Pr Bf Br = real (Bf + Br) / real (Pf + Pr)"

definition claim_selects_random :: "real \<Rightarrow> nat \<Rightarrow> nat \<Rightarrow> nat \<Rightarrow> nat \<Rightarrow> bool" where
  "claim_selects_random S_unreach Pf Pr Bf Br =
     (((Pf \<le> 3 \<or> Pr \<le> 3) \<and> claim_bpp Pf Pr Bf Br \<le> 1.10 * S_unreach)
      \<or> (claim_ratioDiff Pf Pr > 0.2 \<and> claim_bpp Pf Pr Bf Br \<le> 1.10 * S_unreach))"

text \<open>
  The same rule in the arithmetic of the code. The sums are those of 64-bit unsigned
  integers; \<open>bpp\<close> is the whole-number quotient of the two sums, converted to double, and 0
  for a profile whose packet sum is 0; \<open>ratioDiff\<close> is \<open>1 - min / max\<close> computed in
  doubles from the counts converted to double, and 1 for a profile whose packet sum is 0;
  the bounds are the doubles \<open>1.10 * S_unreach\<close> and \<open>0.2\<close>.
\<close>

definition amended_ratioDiff :: "nat \<Rightarrow> nat \<Rightarrow> real" where
  "amended_ratioDiff Pf Pr =
     (if (Pf + Pr) mod 2 ^ 64 = 0 then 1
      else rd (1 - rd (rd (real (min Pf Pr)) / rd (real (max Pf Pr)))))"

definition amended_bpp :: "nat \<Rightarrow> nat \<Rightarrow> nat \<Rightarrow> nat \<Rightarrow> real" where
  "amended_bpp Pf Pr Bf Br =
     (if (Pf + Pr) mod 2 ^ 64 = 0 then 0
      else rd (real (((Bf + Br) mod 2 ^ 64) div ((Pf + Pr) mod 2 ^ 64))))"

definition amended_selects_random :: "int \<Rightarrow> nat \<Rightarrow> nat \<Rightarrow> nat \<Rightarrow> nat \<Rightarrow> bool" where
  "amended_selects_random S_unreach Pf Pr Bf Br =
     (((Pf \<le> 3 \<or> Pr \<le> 3)
         \<and> amended_bpp Pf Pr Bf Br \<le> rd (rd 1.10 * rd (real_of_int S_unreach)))
      \<or> (amended_ratioDiff Pf Pr > rd 0.2
         \<and> amended_bpp Pf Pr Bf Br \<le> rd (rd 1.10 * rd (real_of_int S_unreach))))"

text \<open>
  The table of packet sizes of flow.cpp, with layer-2 sizes and probabilities that are
  literals of type \<^verbatim>\<open>double\<close>, and its adjustment to layer-3 sizes. \<open>hdr\<close> is
  \<^verbatim>\<open>ETHER_HDR_SIZE\<close>, a \<^verbatim>\<open>sizeof\<close> of the packet library.
\<close>

definition PACKET_SIZE_PROBABILITIES_L2 :: "IntervalInfo list" where
  "PACKET_SIZE_PROBABILITIES_L2 =
     [\<lparr>m_from = 64, m_to = 79, m_probability = rd 0.2824\<rparr>,
      \<lparr>m_from = 80, m_to = 159, m_probability = rd 0.073\<rparr>,
      \<lparr>m_from = 160, m_to = 319, m_probability = rd 0.0115\<rparr>,
      \<lparr>m_from = 320, m_to = 639, m_probability = rd 0.012\<rparr>,
      \<lparr>m_from = 640, m_to = 1279, m_probability = rd 0.0092\<rparr>,
      \<lparr>m_from = 1280, m_to = 1500, m_probability = rd 0.6119\<rparr>]"

fun AdjustPacketSizesToL3 :: "u64 \<Rightarrow> IntervalInfo list \<Rightarrow> error + IntervalInfo list" where
  "AdjustPacketSizesToL3 hdr [] = Inr []"
| "AdjustPacketSizesToL3 hdr (iv # rest) =
     (if m_from iv < hdr \<or> m_to iv < hdr then Inl InvalidArgument
      else case AdjustPacketSizesToL3 hdr rest of
             Inl e \<Rightarrow> Inl e
           | Inr rest1 \<Rightarrow> Inr (iv\<lparr>m_from := m_from iv - hdr, m_to := m_to iv - hdr\<rparr> # rest1))"






text \<open>
  The loop of \<^verbatim>\<open>PlanPacketsTimestamps\<close> that draws the inner timestamps from the local
  engine \<^verbatim>\<open>gen\<close>.
\<close>

fun gen_timestamps ::
  "nat \<Rightarrow> Timeval \<Rightarrow> Timeval \<Rightarrow> mt19937 \<Rightarrow> Timeval list \<times> mt19937" where
  "gen_timestamps 0 tsFirst tsLast gen = ([], gen)"
| "gen_timestamps (Suc n) tsFirst tsLast gen =
     (let secDis = uniform_int_distribution (tv_sec tsFirst) (tv_sec tsLast);
          usecDis = uniform_int_distribution 0 999999;
          firstUsecDis =
            (if tv_sec tsFirst = tv_sec tsLast
             then uniform_int_distribution (tv_usec tsFirst) (tv_usec tsLast)
             else uniform_int_distribution (tv_usec tsFirst) 999999);
          lastUsecDis =
            (if tv_sec tsFirst = tv_sec tsLast
             then uniform_int_distribution (tv_usec tsFirst) (tv_usec tsLast)
             else uniform_int_distribution 0 (tv_usec tsLast));
          (sec, gen1) = secDis gen;
          (usec, gen2) =
            (if sec = tv_sec tsFirst then firstUsecDis gen1
             else if sec = tv_sec tsLast then lastUsecDis gen1
             else usecDis gen1);
          (rest, gen3) = gen_timestamps n tsFirst tsLast gen2
      in (\<lparr>tv_sec = sec, tv_usec = usec\<rparr> # rest, gen3))"

text \<open>
  \<^verbatim>\<open>std::random_device rd; std::mt19937 gen(rd());\<close> makes \<open>gen\<close> an engine of its own,
  seeded by the operating system at every call: it is an input of the function, and the
  shared RandomGenerator is not. \<^verbatim>\<open>PacketFlowSpan(this, false)\<close> (packetflowspan.h is
  absent) is taken as the span of all packet plans, in order. \<^verbatim>\<open>std::sort\<close> with the
  comparison \<^verbatim>\<open>a < b\<close> is the sort by \<open>tv_key\<close>.
\<close>

definition PlanPacketsTimestamps :: "mt19937 \<Rightarrow> Flow \<Rightarrow> Flow" where
  "PlanPacketsTimestamps gen flow =
     (let timestampsToGen =
            (if length (m_packets flow) > 2 then length (m_packets flow) - 2 else 0);
          timestamps =
            [m_tsFirst flow, m_tsLast flow]
            @ fst (gen_timestamps timestampsToGen (m_tsFirst flow) (m_tsLast flow) gen);
          sorted_ts = sort_key tv_key timestamps
      in flow\<lparr>m_packets :=
                map2 (\<lambda>packet t. packet\<lparr>m_timestamp := t\<rparr>) (m_packets flow) sorted_ts\<rparr>)"

text \<open>A timeval with its microseconds in range, as every \<^verbatim>\<open>timeval\<close> of a profile is.\<close>

definition tv_valid :: "Timeval \<Rightarrow> bool" where
  "tv_valid t = (0 \<le> tv_usec t \<and> tv_usec t \<le> 999999)"

section \<open>Concrete inputs\<close>

text \<open>An engine that puts out the same raw number forever, and one interval \<open>[50, 65]\<close>.\<close>

definition engine_const :: "nat \<Rightarrow> mt19937" where
  "engine_const r = \<lparr>outputs = (\<lambda>_. r), consumed = 0\<rparr>"

definition ivs0 :: "IntervalInfo list" where
  "ivs0 = [\<lparr>m_from = 50, m_to = 65, m_probability = 1\<rparr>]"

text \<open>A fresh generator for \<open>numPkts\<close> packets and \<open>numBytes\<close> bytes over \<open>ivs0\<close>.\<close>

definition psg0 :: "u64 \<Rightarrow> u64 \<Rightarrow> PacketSizeGeneratorSlow" where
  "psg0 numPkts numBytes =
     \<lparr>m_intervals = ivs0, m_numPkts = numPkts, m_numBytes = numBytes,
      m_values = [], m_assignedPkts = 0, m_assignedBytes = 0\<rparr>"

text \<open>A fresh generator over any intervals.\<close>

definition psg_of :: "IntervalInfo list \<Rightarrow> u64 \<Rightarrow> u64 \<Rightarrow> PacketSizeGeneratorSlow" where
  "psg_of intervals numPkts numBytes =
     \<lparr>m_intervals = intervals, m_numPkts = numPkts, m_numBytes = numBytes,
      m_values = [], m_assignedPkts = 0, m_assignedBytes = 0\<rparr>"

text \<open>Two intervals with the whole-number midpoints 57 and 1250.\<close>

definition ivs1 :: "IntervalInfo list" where
  "ivs1 = [\<lparr>m_from = 50, m_to = 65, m_probability = 0.25\<rparr>,
           \<lparr>m_from = 1000, m_to = 1500, m_probability = 0.75\<rparr>]"

text \<open>Two intervals with the midpoints 15 and 57.5.\<close>

definition ivs3 :: "IntervalInfo list" where
  "ivs3 = [\<lparr>m_from = 10, m_to = 20, m_probability = 0.5\<rparr>,
           \<lparr>m_from = 50, m_to = 65, m_probability = 0.5\<rparr>]"

text \<open>One interval with the single value \<open>c\<close>.\<close>

definition one_point :: "u64 \<Rightarrow> IntervalInfo list" where
  "one_point c = [\<lparr>m_from = c, m_to = c, m_probability = 1\<rparr>]"



text \<open>Header sizes for the examples: 4-byte ICMP headers, 20, 40 and 8 bytes for the rest.\<close>

definition hs0 :: HeaderSizes where
  "hs0 = \<lparr>ICMP_HDR_SIZE = 4, ICMPV6_HDR_SIZE = 4, IPV4_HDR_SIZE = 20, IPV6_HDR_SIZE = 40,
          UDP_HDR_SIZE = 8\<rparr>"

text \<open>
  A flow as the constructor's initialiser list and the \<^verbatim>\<open>_packets.resize\<close> of \<^verbatim>\<open>Plan\<close>
  leave it: the profile's numbers, and one default packet plan per packet.
\<close>

definition new_flow :: "u64 \<Rightarrow> u64 \<Rightarrow> u64 \<Rightarrow> u64 \<Rightarrow> Timeval \<Rightarrow> Timeval \<Rightarrow> Flow" where
  "new_flow Pf Pr Bf Br Ts Te =
     \<lparr>m_fwdPackets = Pf, m_revPackets = Pr, m_fwdBytes = Bf, m_revBytes = Br,
      m_tsFirst = Ts, m_tsLast = Te,
      m_packets = replicate (unat (Pf + Pr))
        \<lparr>m_direction = Dir_Unknown, m_timestamp = \<lparr>tv_sec = 0, tv_usec = 0\<rparr>,
         m_size = 0, m_isFinished = False\<rparr>\<rparr>"

definition tv :: "int \<Rightarrow> int \<Rightarrow> Timeval" where
  "tv s us = \<lparr>tv_sec = s, tv_usec = us\<rparr>"

text \<open>A flow of three forward packets between 1.5 s and 2.5 s.\<close>

definition flow3 :: Flow where
  "flow3 = new_flow 3 0 300 0 (tv 1 500000) (tv 2 500000)"

text \<open>One interval \<open>[20, 30]\<close>.\<close>

definition ivs2 :: "IntervalInfo list" where
  "ivs2 = [\<lparr>m_from = 20, m_to = 30, m_probability = 1\<rparr>]"

section \<open>Auxiliary facts\<close>

lemma replicate_3: "replicate 3 x = [x, x, x]"
  by (simp add: numeral_3_eq_3)

lemma replicate_2: "replicate 2 x = [x, x]"
  by (simp add: numeral_2_eq_2)

text \<open>
  Rounding to double. \<open>rd x\<close> is found by scaling \<open>x\<close> into \<open>[2^52, 2^53)\<close>, where the
  doubles are the whole numbers; whole numbers below \<open>2^53\<close> are doubles.
\<close>

lemma bitlen_eqI: "0 < n \<Longrightarrow> 2 ^ k \<le> n \<Longrightarrow> n < 2 ^ (Suc k) \<Longrightarrow> bitlen n = int k + 1"
proof -
  assume n: "0 < n" and lo: "2 ^ k \<le> n" and hi: "n < 2 ^ (Suc k)"
  have "bitlen n \<le> int k + 1"
    using hi by (simp add: bitlen_le_iff_power nat_add_distrib)
  moreover have "int k + 1 \<le> bitlen n"
    using lo by (simp add: bitlen_ge_iff_power nat_add_distrib)
  ultimately show ?thesis by simp
qed

lemma ilog2_eqI:
  assumes "2 powi k \<le> x" and "x < 2 powi (k + 1)"
  shows "ilog2 x = k"
proof (cases "1 \<le> x")
  case True
  have k0: "0 \<le> k"
  proof (rule ccontr)
    assume "\<not> 0 \<le> k"
    then have "k + 1 \<le> 0" by simp
    then have "(2::real) powi (k + 1) \<le> 2 powi 0"
      by (intro power_int_increasing) simp_all
    then show False using assms(2) True by simp
  qed
  have pos: "0 < \<lfloor>x\<rfloor>" using True by simp
  have p1: "(2::real) powi k = of_int (2 ^ nat k)"
    using k0 by (simp add: power_int_def)
  have p2: "(2::real) powi (k + 1) = of_int (2 ^ Suc (nat k))"
    using k0 by (simp add: power_int_def nat_add_distrib)
  have lo: "2 ^ nat k \<le> \<lfloor>x\<rfloor>"
    using assms(1) unfolding p1 by (simp add: le_floor_iff)
  have hi: "\<lfloor>x\<rfloor> < 2 ^ Suc (nat k)"
    using assms(2) unfolding p2 by (simp only: floor_less_iff)
  have "bitlen \<lfloor>x\<rfloor> = int (nat k) + 1"
    by (rule bitlen_eqI [OF pos lo hi])
  then show ?thesis using True k0 by (simp add: ilog2_def)
next
  case False
  have "(0::real) < 2 powi k" by simp
  then have xpos: "0 < x" using assms(1) by linarith
  have k0: "k < 0"
  proof (rule ccontr)
    assume "\<not> k < 0"
    then have "0 \<le> k" by simp
    then have "(2::real) powi 0 \<le> 2 powi k"
      by (intro power_int_increasing) simp_all
    then show False using assms(1) False by simp
  qed
  define j where "j = nat (- k - 1)"
  have kj: "k = - int j - 1" using k0 by (simp add: j_def)
  define y where "y = 1 / x"
  have p1: "(2::real) powi k = 1 / 2 ^ Suc j"
    by (simp add: kj power_int_def nat_add_distrib field_simps)
  have p2: "(2::real) powi (k + 1) = 1 / 2 ^ j"
    by (simp add: kj power_int_def field_simps)
  have y_hi: "y \<le> 2 ^ Suc j"
  proof -
    have "1 / 2 ^ Suc j \<le> x" using assms(1) unfolding p1 .
    then have "1 \<le> x * 2 ^ Suc j" by (simp add: field_simps)
    then show ?thesis using xpos by (simp add: y_def field_simps)
  qed
  have y_lo: "2 ^ j < y"
  proof -
    have "x < 1 / 2 ^ j" using assms(2) unfolding p2 .
    then have "x * 2 ^ j < 1" by (simp add: field_simps)
    then show ?thesis using xpos by (simp add: y_def field_simps)
  qed
  have c_hi: "\<lceil>y\<rceil> \<le> 2 ^ Suc j"
  proof -
    have "y \<le> of_int (2 ^ Suc j)" using y_hi by simp
    then show ?thesis by (simp only: ceiling_le_iff)
  qed
  have c_lo: "2 ^ j < \<lceil>y\<rceil>"
  proof -
    have "of_int (2 ^ j) < y" using y_lo by simp
    then show ?thesis by (simp only: less_ceiling_iff)
  qed
  have one: "(1::int) \<le> 2 ^ j" by simp
  have m_pos: "0 < \<lceil>y\<rceil> - 1" using c_lo one by linarith
  have m_lo: "2 ^ j \<le> \<lceil>y\<rceil> - 1" using c_lo by linarith
  have m_hi: "\<lceil>y\<rceil> - 1 < 2 ^ Suc j" using c_hi by linarith
  have "bitlen (\<lceil>y\<rceil> - 1) = int j + 1"
    by (rule bitlen_eqI [OF m_pos m_lo m_hi])
  then show ?thesis using False by (simp add: ilog2_def y_def kj)
qed

lemma round_even_of_int: "round_even (of_int n) = n"
  by (simp add: round_even_def)

lemma round_even_nonneg: "0 \<le> x \<Longrightarrow> 0 \<le> round_even x"
  by (simp add: round_even_def Let_def)

lemma rd_nonneg: "0 \<le> x \<Longrightarrow> 0 \<le> rd x"
  by (simp add: rd_def round_even_nonneg)

lemma rd_zero: "rd 0 = 0"
  by (simp add: rd_def)

lemma rd_eval:
  assumes "x * 2 powi (52 - k) = y" and "2 ^ 52 \<le> y" and "y < 2 ^ 53"
  shows "rd x = of_int (round_even y) * 2 powi (k - 52)"
proof -
  have two: "(2::real) powi (52 - k) * 2 powi (k - 52) = 1"
    by (simp flip: power_int_add)
  have "x = x * (2 powi (52 - k) * 2 powi (k - 52))" by (simp only: two mult_1_right)
  also have "\<dots> = y * 2 powi (k - 52)" by (simp only: mult.assoc [symmetric] assms(1))
  finally have x_eq: "x = y * 2 powi (k - 52)" .
  have ypos: "0 < y" using assms(2) by (rule less_le_trans [rotated]) simp
  have spos: "(0::real) < 2 powi (k - 52)" by simp
  have xpos: "0 < x" unfolding x_eq using ypos spos by (rule mult_pos_pos)
  have e52: "(2::real) powi k = 2 ^ 52 * 2 powi (k - 52)"
  proof -
    have "(2::real) powi k = 2 powi (52 + (k - 52))"
      by (rule arg_cong [where f = "power_int 2"]) simp
    also have "\<dots> = 2 powi 52 * 2 powi (k - 52)" by (rule power_int_add) simp
    finally show ?thesis by simp
  qed
  have e53: "(2::real) powi (k + 1) = 2 ^ 53 * 2 powi (k - 52)"
  proof -
    have "(2::real) powi (k + 1) = 2 powi (53 + (k - 52))"
      by (rule arg_cong [where f = "power_int 2"]) simp
    also have "\<dots> = 2 powi 53 * 2 powi (k - 52)" by (rule power_int_add) simp
    finally show ?thesis by simp
  qed
  have lo: "2 powi k \<le> x"
    unfolding x_eq e52 using assms(2) spos by (intro mult_right_mono) simp_all
  have hi: "x < 2 powi (k + 1)"
    unfolding x_eq e53 using assms(3) spos by (intro mult_strict_right_mono) simp_all
  have "ilog2 x = k" by (rule ilog2_eqI [OF lo hi])
  then show ?thesis using xpos assms(1) by (simp add: rd_def)
qed

lemma rd_scale_up:
  assumes "2 ^ 52 \<le> x * 2 ^ j" and "x * 2 ^ j < 2 ^ 53"
  shows "rd x = of_int (round_even (x * 2 ^ j)) / 2 ^ j"
proof -
  have "x * 2 powi (52 - (52 - int j)) = x * 2 ^ j" by simp
  from rd_eval [OF this assms]
  show ?thesis by (simp add: power_int_minus_divide)
qed

lemma rd_scale_down:
  assumes "2 ^ 52 \<le> x / 2 ^ j" and "x / 2 ^ j < 2 ^ 53"
  shows "rd x = of_int (round_even (x / 2 ^ j)) * 2 ^ j"
proof -
  have "x * 2 powi (52 - (52 + int j)) = x / 2 ^ j" by (simp add: power_int_minus_divide)
  from rd_eval [OF this assms]
  show ?thesis by simp
qed

lemma rd_001: "rd 0.01 = 5764607523034235 / 2 ^ 59"
  using rd_scale_up [of "0.01" 59] by (simp add: round_even_def Let_def)

lemma rd_02: "rd 0.2 = 7205759403792794 / 2 ^ 55"
  using rd_scale_up [of "0.2" 55] by (simp add: round_even_def Let_def)

lemma rd_big: "rd 20000000000000014 = 20000000000000016"
  using rd_scale_down [of "20000000000000014" 2] by (simp add: round_even_def Let_def)

lemma rd_1: "rd 1 = 1"
  using rd_scale_up [of 1 52] by (simp add: round_even_def Let_def)

lemma rd_nat_exact:
  assumes "n < 2 ^ 53"
  shows "rd (real n) = real n"
proof (cases "n = 0")
  case True
  then show ?thesis by (simp add: rd_zero)
next
  case False
  then have pos: "0 < int n" by simp
  define b where "b = nat (bitlen (int n) - 1)"
  have bl: "1 \<le> bitlen (int n)" using pos by (simp add: bitlen_alt_def)
  have sb: "nat (bitlen (int n)) = Suc b" using bl by (simp add: b_def)
  have bnd: "2 ^ b \<le> int n" "int n < 2 ^ Suc b"
    using bitlen_bounds [OF pos] unfolding sb b_def by simp_all
  have "int n < 2 ^ 53" using assms by simp
  then have "(2::int) ^ b < 2 ^ 53" using bnd(1) by linarith
  then have "b < 53" by (rule power_less_imp_less_exp [rotated]) simp
  then have b52: "b \<le> 52" by simp
  define s where "s = 52 - b"
  have sum: "b + s = 52" using b52 by (simp add: s_def)
  have lo: "2 ^ 52 \<le> real n * 2 ^ s"
  proof -
    have "real_of_int (2 ^ b) \<le> real_of_int (int n)" using bnd(1) by (simp only: of_int_le_iff)
    then have "(2::real) ^ b * 2 ^ s \<le> real n * 2 ^ s" by simp
    then show ?thesis by (simp only: power_add [symmetric] sum)
  qed
  have hi: "real n * 2 ^ s < 2 ^ 53"
  proof -
    have "real_of_int (int n) < real_of_int (2 ^ Suc b)" using bnd(2) by (simp only: of_int_less_iff)
    then have "real n * 2 ^ s < 2 ^ Suc b * 2 ^ s" by simp
    also have "\<dots> = (2::real) ^ (Suc b + s)" by (simp only: power_add)
    also have "Suc b + s = 53" using sum by simp
    finally show ?thesis .
  qed
  have yi: "real n * 2 ^ s = of_int (int n * 2 ^ s)" by simp
  have "rd (real n) = of_int (round_even (real n * 2 ^ s)) / 2 ^ s"
    by (rule rd_scale_up [OF lo hi])
  also have "\<dots> = real n * 2 ^ s / 2 ^ s"
    unfolding yi round_even_of_int by simp
  also have "\<dots> = real n" by simp
  finally show ?thesis .
qed

lemma rd_numeral_exact:
  "numeral w < (2::nat) ^ 53 \<Longrightarrow> rd (numeral w) = numeral w"
  using rd_nat_exact [of "numeral w"] by simp

lemma rd_11: "rd 1.1 = 4953959590107546 / 2 ^ 52"
  using rd_scale_up [of "1.1" 52] by (simp add: round_even_def Let_def)

lemma rd_quarter: "rd 0.25 = 0.25"
  using rd_scale_up [of "0.25" 54] by (simp add: round_even_def Let_def)

lemma rd_half: "rd (1 / 2) = 1 / 2"
  using rd_scale_up [of "1 / 2" 53] by (simp add: round_even_def Let_def)

lemma unreach_limit_32: "unreach_limit 32 = 2476979795053773 / 2 ^ 46"
  using rd_scale_up [of "4953959590107546 / 2 ^ 52 * 32" 47]
  by (simp add: unreach_limit_def rd_11 round_even_def Let_def rd_numeral_exact)

lemma unreach_limit_56: "unreach_limit 56 = 4334714641344103 / 2 ^ 46"
  using rd_scale_up [of "4953959590107546 / 2 ^ 52 * 56" 47]
  by (simp add: unreach_limit_def rd_11 round_even_def Let_def rd_numeral_exact)

lemma MAX_DIFF_RATIO_eval: "MAX_DIFF_RATIO = 5764607523034235 / 2 ^ 59"
  unfolding MAX_DIFF_RATIO_def by (rule rd_001)

lemma DIFF_RATIO_FALLBACK_TO_UNIFORM_eval:
  "DIFF_RATIO_FALLBACK_TO_UNIFORM = 7205759403792794 / 2 ^ 55"
  unfolding DIFF_RATIO_FALLBACK_TO_UNIFORM_def by (rule rd_02)

lemma to_double_big: "to_double 20000000000000014 = 20000000000000016"
  by (simp add: to_double_def rd_big)

lemma ratio_big: "rd (4000000000000003 / 20000000000000016) = 7205759403792793 / 2 ^ 55"
  using rd_scale_up [of "4000000000000003 / 20000000000000016" 55]
  by (simp add: round_even_def Let_def)

lemma ratio_30_100: "rd (3 / 10) = 5404319552844595 / 2 ^ 54"
  using rd_scale_up [of "3 / 10" 54] by (simp add: round_even_def Let_def)

text \<open>
  The loops of \<^verbatim>\<open>Generate\<close> keep the length of the pool, and do not run when the first
  sum is within the targets.
\<close>

lemma initial_fill_length:
  "length (fst (initial_fill intervals probSum vs valuesSum rng)) = length vs"
  by (induction vs arbitrary: valuesSum rng) (simp_all add: Let_def case_prod_beta)

lemma sweep_length:
  "length (st_values st) = length pre + length rest \<Longrightarrow>
   length (st_values (sweep intervals probSum targetMin targetMax desiredBytes pre rest st))
   = length pre + length rest"
  by (induction rest arbitrary: pre st) (simp_all add: Let_def case_prod_beta)

lemma attempt_with_length:
  "length (st_values (attempt_with biased targetMin targetMax desiredBytes st))
   = length (st_values st)"
  using sweep_length [of st "[]" "st_values st" biased "SumProbabilities biased"
      targetMin targetMax desiredBytes]
  by (simp add: attempt_with_def Let_def)

lemma attempts_length:
  "length (st_values (attempts n intervals desiredPkts targetMin targetMax desiredBytes st))
   = length (st_values st)"
  by (induction n arbitrary: st) (simp_all add: Let_def attempt_with_length)

lemma initial_state_length:
  "length (st_values (initial_state intervals desiredBytes vals rng)) = length vals"
  using initial_fill_length [of intervals "SumProbabilities intervals" vals 0 rng]
  by (simp add: initial_state_def Let_def case_prod_beta)

lemma search_length:
  "length (st_values (search intervals desiredPkts desiredBytes vals rng)) = length vals"
  by (simp add: search_def attempts_length initial_state_length)

lemma attempts_in_band:
  "\<not> (st_valuesSum st < targetMin \<or> st_valuesSum st > targetMax) \<Longrightarrow>
   attempts n intervals desiredPkts targetMin targetMax desiredBytes st = st"
  by (cases n) simp_all

text \<open>
  Every value drawn lies in an interval, and the loops of \<^verbatim>\<open>Generate\<close> keep that.
\<close>

lemma RandomUInt_range:
  assumes "lo \<le> hi"
  shows "lo \<le> fst (RandomUInt lo hi rng) \<and> fst (RandomUInt lo hi rng) \<le> hi"
proof -
  define k where "k = outputs rng (consumed rng) mod (unat (hi - lo) + 1)"
  have d: "unat (hi - lo) = unat hi - unat lo"
    using assms by (rule unat_sub)
  have lohi: "unat lo \<le> unat hi"
    using assms by (simp add: word_le_nat_alt)
  have "k < unat (hi - lo) + 1" by (simp add: k_def)
  then have k_le: "k \<le> unat hi - unat lo" using d by simp
  then have "k \<le> unat hi" by simp
  then have uk: "unat (word_of_nat k :: u64) = k" by (rule le_unat_uoi)
  have "unat lo + k \<le> unat hi" using k_le lohi by simp
  moreover have "unat hi < 2 ^ 64" using unsigned_less [of hi] by simp
  ultimately have "unat lo + unat (word_of_nat k :: u64) < 2 ^ LENGTH(64)"
    using uk by simp
  then have sum: "unat (lo + word_of_nat k) = unat lo + k"
    using unat_add_lem [of lo "word_of_nat k"] uk by simp
  have res: "fst (RandomUInt lo hi rng) = lo + word_of_nat k"
    by (simp add: RandomUInt_def engine_next_def Let_def k_def)
  show ?thesis
    unfolding res word_le_nat_alt sum using k_le lohi by simp
qed

lemma RandomDouble_range:
  assumes "lo \<le> hi"
  shows "lo \<le> fst (RandomDouble lo hi rng) \<and> fst (RandomDouble lo hi rng) \<le> hi"
proof -
  define f where "f = real (outputs rng (consumed rng) mod 2 ^ 32) / 2 ^ 32"
  have "outputs rng (consumed rng) mod 2 ^ 32 < 2 ^ 32" by simp
  then have "real (outputs rng (consumed rng) mod 2 ^ 32) < real (2 ^ 32)"
    by (rule of_nat_less_iff [THEN iffD2])
  then have f1: "f \<le> 1" and f0: "0 \<le> f" by (simp_all add: f_def)
  have res: "fst (RandomDouble lo hi rng) = lo + (hi - lo) * f"
    by (simp add: RandomDouble_def engine_next_def Let_def f_def)
  have "0 \<le> (hi - lo) * f" using assms f0 by simp
  moreover have "(hi - lo) * f \<le> (hi - lo) * 1"
    using assms f1 by (intro mult_left_mono) simp_all
  ultimately show ?thesis unfolding res by simp
qed

lemma accumulate_nonneg:
  "0 \<le> a \<Longrightarrow> \<forall>iv \<in> set intervals. 0 \<le> m_probability iv \<Longrightarrow>
   0 \<le> foldl (\<lambda>sum iv. rd (sum + m_probability iv)) a intervals"
  by (induction intervals arbitrary: a) (simp_all add: rd_nonneg)

lemma SumProbabilities_nonneg:
  "\<forall>iv \<in> set intervals. 0 \<le> m_probability iv \<Longrightarrow> 0 \<le> SumProbabilities intervals"
  unfolding SumProbabilities_def by (rule accumulate_nonneg) simp_all

lemma pick_interval_Some:
  "intervals \<noteq> [] \<Longrightarrow>
   genVal \<le> foldl (\<lambda>sum iv. rd (sum + m_probability iv)) probSum intervals \<Longrightarrow>
   \<exists>iv \<in> set intervals. pick_interval intervals probSum genVal = Some iv"
proof (induction intervals arbitrary: probSum)
  case Nil
  then show ?case by simp
next
  case (Cons iv rest)
  show ?case
  proof (cases "genVal \<le> rd (probSum + m_probability iv)")
    case True
    then show ?thesis by simp
  next
    case False
    then have "rest \<noteq> []" using Cons.prems(2) by auto
    moreover have "genVal \<le> foldl (\<lambda>sum iv. rd (sum + m_probability iv))
        (rd (probSum + m_probability iv)) rest"
      using Cons.prems(2) by simp
    ultimately have "\<exists>iv' \<in> set rest.
        pick_interval rest (rd (probSum + m_probability iv)) genVal = Some iv'"
      by (rule Cons.IH)
    then show ?thesis using False by (simp add: Let_def)
  qed
qed

lemma GenerateRandomValue_in_intervals:
  assumes "intervals_wf intervals"
  shows "in_intervals intervals (fst (GenerateRandomValue intervals (SumProbabilities intervals) rng))"
proof -
  define genVal where "genVal = fst (RandomDouble 0 (SumProbabilities intervals) rng)"
  define rng1 where "rng1 = snd (RandomDouble 0 (SumProbabilities intervals) rng)"
  have "0 \<le> SumProbabilities intervals"
    using assms by (simp add: intervals_wf_def SumProbabilities_nonneg)
  then have "genVal \<le> SumProbabilities intervals"
    unfolding genVal_def using RandomDouble_range [of 0 "SumProbabilities intervals" rng] by simp
  then have "genVal \<le> foldl (\<lambda>sum iv. rd (sum + m_probability iv)) 0 intervals"
    by (simp add: SumProbabilities_def)
  moreover have "intervals \<noteq> []" using assms by (simp add: intervals_wf_def)
  ultimately obtain iv where iv: "iv \<in> set intervals" "pick_interval intervals 0 genVal = Some iv"
    using pick_interval_Some [of intervals genVal 0] by blast
  have res: "fst (GenerateRandomValue intervals (SumProbabilities intervals) rng)
      = fst (RandomUInt (m_from iv) (m_to iv) rng1)"
    using iv(2) by (simp add: GenerateRandomValue_def case_prod_beta genVal_def rng1_def)
  have "m_from iv \<le> m_to iv" using assms iv(1) by (simp add: intervals_wf_def)
  then show ?thesis
    unfolding res in_intervals_def using RandomUInt_range [of "m_from iv" "m_to iv" rng1] iv(1)
    by blast
qed

lemma bias_intervals_wf:
  "intervals_wf intervals \<Longrightarrow>
   intervals_wf (bias_intervals valuesSum targetMin targetMax avgValue intervals)"
  by (auto simp: intervals_wf_def bias_intervals_def)

lemma in_intervals_map:
  "(\<And>iv. m_from (g iv) = m_from iv \<and> m_to (g iv) = m_to iv) \<Longrightarrow>
   in_intervals (map g intervals) v = in_intervals intervals v"
  by (simp add: in_intervals_def)

lemma bias_intervals_in:
  "in_intervals (bias_intervals valuesSum targetMin targetMax avgValue intervals) v
   = in_intervals intervals v"
  unfolding bias_intervals_def by (simp add: in_intervals_map)

lemma initial_fill_in_intervals:
  assumes "intervals_wf intervals"
  shows "v \<in> set (fst (initial_fill intervals (SumProbabilities intervals) vs valuesSum rng))
         \<Longrightarrow> in_intervals intervals v"
proof (induction vs arbitrary: valuesSum rng)
  case Nil
  then show ?case by simp
next
  case (Cons x vs)
  define r where "r = GenerateRandomValue intervals (SumProbabilities intervals) rng"
  have unfold: "fst (initial_fill intervals (SumProbabilities intervals) (x # vs) valuesSum rng)
      = fst r # fst (initial_fill intervals (SumProbabilities intervals) vs (valuesSum + fst r) (snd r))"
    by (simp add: Let_def case_prod_beta r_def)
  have "v = fst r \<or> v \<in> set (fst (initial_fill intervals (SumProbabilities intervals) vs
      (valuesSum + fst r) (snd r)))"
    using Cons.prems unfolding unfold by simp
  then show ?case
    using Cons.IH GenerateRandomValue_in_intervals [OF assms, of rng] unfolding r_def by blast
qed

lemma sweep_pool_in:
  assumes "intervals_wf biased" and "\<And>v. in_intervals biased v = in_intervals intervals v"
  shows "pool_in intervals st \<Longrightarrow> \<forall>v \<in> set pre. in_intervals intervals v \<Longrightarrow>
         \<forall>v \<in> set rest. in_intervals intervals v \<Longrightarrow>
         pool_in intervals
           (sweep biased (SumProbabilities biased) targetMin targetMax desiredBytes pre rest st)"
proof (induction rest arbitrary: pre st)
  case Nil
  then show ?case by simp
next
  case (Cons x rest)
  define r where "r = GenerateRandomValue biased (SumProbabilities biased) (st_rng st)"
  have new_in: "in_intervals intervals (fst r)"
    unfolding r_def using GenerateRandomValue_in_intervals [OF assms(1)] assms(2) by simp
  define vals where "vals = pre @ fst r # rest"
  have vals_in: "\<forall>v \<in> set vals. in_intervals intervals v"
    using Cons.prems(2,3) new_in by (auto simp: vals_def)
  define st1 where "st1 = st\<lparr>st_values := vals,
      st_valuesSum := st_valuesSum st - x + fst r, st_rng := snd r\<rparr>"
  have st1_in: "pool_in intervals st1"
    using Cons.prems(1) vals_in by (simp add: pool_in_def st1_def)
  define st2 where "st2 = (if absdiff (st_valuesSum st1) desiredBytes < st_bestDiff st1
      then st1\<lparr>st_bestValues := vals, st_bestDiff := absdiff (st_valuesSum st1) desiredBytes\<rparr>
      else st1)"
  have st2_in: "pool_in intervals st2"
    using st1_in vals_in by (simp add: pool_in_def st2_def)
  have pre_in: "\<forall>v \<in> set (pre @ [fst r]). in_intervals intervals v"
    using Cons.prems(2) new_in by simp
  have rest_in: "\<forall>v \<in> set rest. in_intervals intervals v"
    using Cons.prems(3) by simp
  have step: "sweep biased (SumProbabilities biased) targetMin targetMax desiredBytes pre (x # rest) st
      = (if st_valuesSum st1 \<ge> targetMin \<and> st_valuesSum st1 \<le> targetMax then st1
         else sweep biased (SumProbabilities biased) targetMin targetMax desiredBytes
                (pre @ [fst r]) rest st2)"
    by (simp add: Let_def case_prod_beta r_def [symmetric] vals_def [symmetric] st1_def st2_def)
  show ?case
    unfolding step using st1_in Cons.IH [OF st2_in pre_in rest_in] by simp
qed

lemma attempt_with_pool_in:
  assumes "intervals_wf biased" and "\<And>v. in_intervals biased v = in_intervals intervals v"
    and "pool_in intervals st"
  shows "pool_in intervals (attempt_with biased targetMin targetMax desiredBytes st)"
proof -
  define st1 where "st1 = sweep biased (SumProbabilities biased) targetMin targetMax desiredBytes
      [] (st_values st) st"
  have "pool_in intervals st1"
    unfolding st1_def using assms(3)
    by (intro sweep_pool_in [OF assms(1,2)]) (simp_all add: pool_in_def)
  then show ?thesis
    by (simp add: attempt_with_def Let_def st1_def [symmetric] pool_in_def)
qed

lemma attempts_pool_in:
  assumes "intervals_wf intervals"
  shows "pool_in intervals st \<Longrightarrow>
         pool_in intervals (attempts n intervals desiredPkts targetMin targetMax desiredBytes st)"
proof (induction n arbitrary: st)
  case 0
  then show ?case by simp
next
  case (Suc n)
  define biased where "biased = bias_intervals (st_valuesSum st) targetMin targetMax
      (st_valuesSum st div desiredPkts) intervals"
  have wf: "intervals_wf biased" unfolding biased_def by (rule bias_intervals_wf [OF assms])
  have same: "in_intervals biased v = in_intervals intervals v" for v
    unfolding biased_def by (rule bias_intervals_in)
  have next_in: "pool_in intervals (attempt_with biased targetMin targetMax desiredBytes st)"
    by (rule attempt_with_pool_in [OF wf same Suc.prems])
  have step: "attempts (Suc n) intervals desiredPkts targetMin targetMax desiredBytes st
      = (if st_valuesSum st < targetMin \<or> st_valuesSum st > targetMax
         then attempts n intervals desiredPkts targetMin targetMax desiredBytes
                (attempt_with biased targetMin targetMax desiredBytes st)
         else st)"
    by (simp add: Let_def biased_def)
  show ?case
    unfolding step using Suc.prems Suc.IH [OF next_in] by simp
qed

lemma initial_state_pool_in:
  assumes "intervals_wf intervals"
  shows "pool_in intervals (initial_state intervals desiredBytes vals rng)"
proof -
  define fill where "fill = initial_fill intervals (SumProbabilities intervals) vals 0 rng"
  have fill_in: "\<forall>v \<in> set (fst fill). in_intervals intervals v"
    unfolding fill_def using initial_fill_in_intervals [OF assms] by blast
  have "initial_state intervals desiredBytes vals rng
      = \<lparr>st_values = fst fill, st_valuesSum = fst (snd fill), st_bestValues = fst fill,
         st_bestDiff = absdiff (fst (snd fill)) desiredBytes, st_rng = snd (snd fill)\<rparr>"
    unfolding initial_state_def Let_def case_prod_beta fill_def by (rule refl)
  then show ?thesis using fill_in by (simp add: pool_in_def)
qed

lemma search_pool_in:
  assumes "intervals_wf intervals"
  shows "pool_in intervals (search intervals desiredPkts desiredBytes vals rng)"
  unfolding search_def
  by (rule attempts_pool_in [OF assms initial_state_pool_in [OF assms]])

lemma swap_at_mset:
  "i < length xs \<Longrightarrow> j < length xs \<Longrightarrow> mset (swap_at i j xs) = mset xs"
  unfolding swap_at_def by (rule mset_swap)

lemma shuffle_steps_mset:
  "\<forall>i \<in> set is. i < length xs \<Longrightarrow>
   mset (foldl (\<lambda>ys i. swap_at i (dre (i - 1) mod (i + 1)) ys) xs is) = mset xs"
proof (induction "is" arbitrary: xs)
  case Nil
  then show ?case by simp
next
  case (Cons i "is")
  have i: "i < length xs" using Cons.prems by simp
  have "dre (i - 1) mod (i + 1) < i + 1"
    by (rule mod_less_divisor) simp
  then have j: "dre (i - 1) mod (i + 1) < length xs"
    using i by linarith
  have len: "length (swap_at i (dre (i - 1) mod (i + 1)) xs) = length xs"
    by (simp add: swap_at_def)
  have "mset (foldl (\<lambda>ys i. swap_at i (dre (i - 1) mod (i + 1)) ys)
      (swap_at i (dre (i - 1) mod (i + 1)) xs) is) = mset (swap_at i (dre (i - 1) mod (i + 1)) xs)"
    by (rule Cons.IH) (use Cons.prems in \<open>simp only: len\<close>, simp)
  then show ?case using swap_at_mset [OF i j] by simp
qed

lemma shuffle_set: "set (shuffle dre xs) = set xs"
proof -
  have "mset (shuffle dre xs) = mset xs"
    unfolding shuffle_def by (rule shuffle_steps_mset) simp
  then show ?thesis by (rule mset_eq_setD)
qed

lemma shuffle_replicate: "shuffle dre (replicate n c) = replicate n c"
proof -
  have m: "mset (shuffle dre (replicate n c)) = mset (replicate n c)"
    unfolding shuffle_def by (rule shuffle_steps_mset) simp
  have "length (shuffle dre (replicate n c)) = length (replicate n c)"
    by (rule mset_eq_length [OF m])
  then have l: "length (shuffle dre (replicate n c)) = n" by simp
  have "set (shuffle dre (replicate n c)) = set (replicate n c)"
    by (rule mset_eq_setD [OF m])
  then have "y \<in> set (shuffle dre (replicate n c)) \<Longrightarrow> y = c" for y by auto
  with l show ?thesis by (rule replicate_eqI)
qed

text \<open>
  Over one interval of one value \<open>c\<close> every draw is \<open>c\<close>: an attempt leaves the pool, its
  sum and the best difference as they are, and the search ends with the first pool.
\<close>

lemma GenerateRandomValue_single:
  assumes "0 \<le> p"
  shows "fst (GenerateRandomValue [\<lparr>m_from = c, m_to = c, m_probability = p\<rparr>]
            (SumProbabilities [\<lparr>m_from = c, m_to = c, m_probability = p\<rparr>]) rng) = c"
proof -
  have "intervals_wf [\<lparr>m_from = c, m_to = c, m_probability = p\<rparr>]"
    using assms by (simp add: intervals_wf_def)
  from GenerateRandomValue_in_intervals [OF this, of rng]
  show ?thesis by (simp add: in_intervals_def order.antisym)
qed

lemma sweep_single:
  assumes p: "0 \<le> p" and out: "\<not> (targetMin \<le> S \<and> S \<le> targetMax)"
    and best: "\<not> absdiff S desiredBytes < d"
  shows "set rest \<subseteq> {c} \<Longrightarrow> st_values st = pre @ rest \<Longrightarrow> st_valuesSum st = S \<Longrightarrow>
         st_bestDiff st = d \<Longrightarrow>
         st_values (sweep [\<lparr>m_from = c, m_to = c, m_probability = p\<rparr>]
             (SumProbabilities [\<lparr>m_from = c, m_to = c, m_probability = p\<rparr>])
             targetMin targetMax desiredBytes pre rest st) = st_values st
         \<and> st_valuesSum (sweep [\<lparr>m_from = c, m_to = c, m_probability = p\<rparr>]
             (SumProbabilities [\<lparr>m_from = c, m_to = c, m_probability = p\<rparr>])
             targetMin targetMax desiredBytes pre rest st) = S
         \<and> st_bestValues (sweep [\<lparr>m_from = c, m_to = c, m_probability = p\<rparr>]
             (SumProbabilities [\<lparr>m_from = c, m_to = c, m_probability = p\<rparr>])
             targetMin targetMax desiredBytes pre rest st) = st_bestValues st
         \<and> st_bestDiff (sweep [\<lparr>m_from = c, m_to = c, m_probability = p\<rparr>]
             (SumProbabilities [\<lparr>m_from = c, m_to = c, m_probability = p\<rparr>])
             targetMin targetMax desiredBytes pre rest st) = d"
proof (induction rest arbitrary: pre st)
  case Nil
  then show ?case by simp
next
  case (Cons v rest)
  define ivs where "ivs = [\<lparr>m_from = c, m_to = c, m_probability = p\<rparr>]"
  define rng1 where "rng1 = snd (GenerateRandomValue ivs (SumProbabilities ivs) (st_rng st))"
  define st1 where "st1 = st\<lparr>st_values := pre @ c # rest, st_valuesSum := S, st_rng := rng1\<rparr>"
  have v: "v = c" using Cons.prems(1) by simp
  have nb: "(targetMin \<le> S \<and> S \<le> targetMax) = False" using out by simp
  have draw: "fst (GenerateRandomValue ivs (SumProbabilities ivs) (st_rng st)) = c"
    unfolding ivs_def by (rule GenerateRandomValue_single [OF p])
  have step: "sweep ivs (SumProbabilities ivs) targetMin targetMax desiredBytes pre (v # rest) st
      = sweep ivs (SumProbabilities ivs) targetMin targetMax desiredBytes (pre @ [c]) rest st1"
    using best Cons.prems(2,3,4) draw
    by (simp add: case_prod_beta Let_def v st1_def rng1_def nb)
  have ih: "st_values (sweep ivs (SumProbabilities ivs) targetMin targetMax desiredBytes
               (pre @ [c]) rest st1) = st_values st1
      \<and> st_valuesSum (sweep ivs (SumProbabilities ivs) targetMin targetMax desiredBytes
               (pre @ [c]) rest st1) = S
      \<and> st_bestValues (sweep ivs (SumProbabilities ivs) targetMin targetMax desiredBytes
               (pre @ [c]) rest st1) = st_bestValues st1
      \<and> st_bestDiff (sweep ivs (SumProbabilities ivs) targetMin targetMax desiredBytes
               (pre @ [c]) rest st1) = d"
    unfolding ivs_def
    using Cons.prems by (intro Cons.IH) (simp_all add: st1_def v)
  show ?case
    unfolding ivs_def [symmetric] step using ih Cons.prems(2) by (simp add: st1_def v)
qed

lemma attempt_with_single:
  assumes p: "0 \<le> p"
    and out: "\<not> (targetMin \<le> st_valuesSum st \<and> st_valuesSum st \<le> targetMax)"
    and best: "\<not> absdiff (st_valuesSum st) desiredBytes < st_bestDiff st"
    and vals: "set (st_values st) \<subseteq> {c}"
  shows "st_values (attempt_with [\<lparr>m_from = c, m_to = c, m_probability = p\<rparr>]
             targetMin targetMax desiredBytes st) = st_values st
         \<and> st_valuesSum (attempt_with [\<lparr>m_from = c, m_to = c, m_probability = p\<rparr>]
             targetMin targetMax desiredBytes st) = st_valuesSum st
         \<and> st_bestValues (attempt_with [\<lparr>m_from = c, m_to = c, m_probability = p\<rparr>]
             targetMin targetMax desiredBytes st) = st_bestValues st
         \<and> st_bestDiff (attempt_with [\<lparr>m_from = c, m_to = c, m_probability = p\<rparr>]
             targetMin targetMax desiredBytes st) = st_bestDiff st"
  using sweep_single [OF p out best, of "st_values st" c st "[]"] vals best
  by (simp add: attempt_with_def Let_def)

lemma bias_intervals_one_point:
  "\<exists>p. 0 \<le> p \<and> bias_intervals valuesSum targetMin targetMax avgValue (one_point c)
      = [\<lparr>m_from = c, m_to = c, m_probability = p\<rparr>]"
  by (simp add: bias_intervals_def one_point_def)

lemma attempts_one_point:
  "\<not> absdiff (st_valuesSum st) desiredBytes < st_bestDiff st \<Longrightarrow> set (st_values st) \<subseteq> {c} \<Longrightarrow>
   st_values (attempts n (one_point c) desiredPkts targetMin targetMax desiredBytes st)
     = st_values st
   \<and> st_valuesSum (attempts n (one_point c) desiredPkts targetMin targetMax desiredBytes st)
     = st_valuesSum st
   \<and> st_bestValues (attempts n (one_point c) desiredPkts targetMin targetMax desiredBytes st)
     = st_bestValues st
   \<and> st_bestDiff (attempts n (one_point c) desiredPkts targetMin targetMax desiredBytes st)
     = st_bestDiff st"
proof (induction n arbitrary: st)
  case 0
  then show ?case by simp
next
  case (Suc n)
  show ?case
  proof (cases "st_valuesSum st < targetMin \<or> st_valuesSum st > targetMax")
    case False
    then show ?thesis by simp
  next
    case True
    then have out: "\<not> (targetMin \<le> st_valuesSum st \<and> st_valuesSum st \<le> targetMax)"
      by auto
    obtain p where p: "0 \<le> p"
      and b: "bias_intervals (st_valuesSum st) targetMin targetMax
                (st_valuesSum st div desiredPkts) (one_point c)
              = [\<lparr>m_from = c, m_to = c, m_probability = p\<rparr>]"
      using bias_intervals_one_point by blast
    define st1 where "st1 = attempt_with [\<lparr>m_from = c, m_to = c, m_probability = p\<rparr>]
        targetMin targetMax desiredBytes st"
    have keep: "st_values st1 = st_values st \<and> st_valuesSum st1 = st_valuesSum st
        \<and> st_bestValues st1 = st_bestValues st \<and> st_bestDiff st1 = st_bestDiff st"
      unfolding st1_def by (rule attempt_with_single [OF p out Suc.prems])
    have step: "attempts (Suc n) (one_point c) desiredPkts targetMin targetMax desiredBytes st
        = attempts n (one_point c) desiredPkts targetMin targetMax desiredBytes st1"
      using True by (simp add: Let_def b st1_def)
    have "st_values (attempts n (one_point c) desiredPkts targetMin targetMax desiredBytes st1)
            = st_values st1
        \<and> st_valuesSum (attempts n (one_point c) desiredPkts targetMin targetMax desiredBytes st1)
            = st_valuesSum st1
        \<and> st_bestValues (attempts n (one_point c) desiredPkts targetMin targetMax desiredBytes st1)
            = st_bestValues st1
        \<and> st_bestDiff (attempts n (one_point c) desiredPkts targetMin targetMax desiredBytes st1)
            = st_bestDiff st1"
      using Suc.prems keep by (intro Suc.IH) simp_all
    then show ?thesis unfolding step using keep by simp
  qed
qed

lemma initial_fill_one_point:
  "fst (initial_fill (one_point c) (SumProbabilities (one_point c)) vals acc rng)
     = replicate (length vals) c
   \<and> fst (snd (initial_fill (one_point c) (SumProbabilities (one_point c)) vals acc rng))
     = acc + of_nat (length vals) * c"
proof (induction vals arbitrary: acc rng)
  case Nil
  then show ?case by simp
next
  case (Cons v vals)
  have g: "fst (GenerateRandomValue (one_point c) (SumProbabilities (one_point c)) r) = c" for r
    unfolding one_point_def by (rule GenerateRandomValue_single) simp
  show ?case
    by (simp add: Let_def case_prod_beta g Cons.IH algebra_simps)
qed

lemma search_one_point:
  "st_bestValues (search (one_point c) desiredPkts desiredBytes vals rng)
     = replicate (length vals) c
   \<and> st_bestDiff (search (one_point c) desiredPkts desiredBytes vals rng)
     = absdiff (of_nat (length vals) * c) desiredBytes"
proof -
  define st0 where "st0 = initial_state (one_point c) desiredBytes vals rng"
  have i: "st_values st0 = replicate (length vals) c"
    "st_valuesSum st0 = of_nat (length vals) * c"
    "st_bestValues st0 = replicate (length vals) c"
    "st_bestDiff st0 = absdiff (of_nat (length vals) * c) desiredBytes"
    unfolding st0_def using initial_fill_one_point [of c vals 0 rng]
    by (simp_all add: initial_state_def Let_def case_prod_beta)
  have "\<not> absdiff (st_valuesSum st0) desiredBytes < st_bestDiff st0" by (simp add: i)
  moreover have "set (st_values st0) \<subseteq> {c}" unfolding i by auto
  ultimately show ?thesis
    unfolding search_def st0_def [symmetric]
    using attempts_one_point [of st0 desiredBytes c MAX_ATTEMPTS desiredPkts
        "targetMin_of desiredBytes" "targetMax_of desiredBytes"] i
    by simp
qed

text \<open>
  The targets for some byte counts, and the runs over \<open>ivs0\<close> and \<open>ivs1\<close> with engines
  that put out one number.
\<close>

lemma targets_big:
  "targetMin_of 20000000000000014 = 19800000000000016"
  "targetMax_of 20000000000000014 = 20200000000000016"
proof -
  have prod: "rd (MAX_DIFF_RATIO * 20000000000000016) = 6400000000000005 / 32"
    using rd_scale_up [of "5764607523034235 / 2 ^ 59 * 20000000000000016" 5]
    by (simp add: MAX_DIFF_RATIO_eval round_even_def Let_def)
  have md: "maxDiff_of 20000000000000014 = 200000000000000"
    unfolding maxDiff_of_def to_double_big prod MIN_DIFF_def
    by (simp add: to_uint64_def to_double_def rd_numeral_exact)
  have lo: "rd 19800000000000016 = 19800000000000016"
    using rd_scale_down [of 19800000000000016 2] by (simp add: round_even_def Let_def)
  have hi: "rd 20200000000000016 = 20200000000000016"
    using rd_scale_down [of 20200000000000016 2] by (simp add: round_even_def Let_def)
  show "targetMin_of 20000000000000014 = 19800000000000016"
    by (simp add: targetMin_of_def md to_double_big lo to_uint64_def)
  show "targetMax_of 20000000000000014 = 20200000000000016"
    by (simp add: targetMax_of_def md to_double_big hi to_uint64_def)
qed

lemma targets_100: "targetMin_of 100 = 50" "targetMax_of 100 = 150"
proof -
  have d: "to_double 100 = 100"
    by (simp add: to_double_def rd_numeral_exact)
  have prod: "rd (MAX_DIFF_RATIO * 100) = 1"
    using rd_scale_up [of "5764607523034235 / 2 ^ 59 * 100" 52]
    by (simp add: MAX_DIFF_RATIO_eval round_even_def Let_def)
  have md: "maxDiff_of 100 = 50"
    unfolding maxDiff_of_def d prod MIN_DIFF_def
    by (simp add: to_uint64_def to_double_def rd_numeral_exact)
  show "targetMin_of 100 = 50"
    unfolding targetMin_of_def md d by (simp add: to_uint64_def rd_numeral_exact)
  show "targetMax_of 100 = 150"
    unfolding targetMax_of_def md d by (simp add: to_uint64_def rd_numeral_exact)
qed

lemma targets_200: "targetMin_of 200 = 150" "targetMax_of 200 = 250"
proof -
  have d: "to_double 200 = 200"
    by (simp add: to_double_def rd_numeral_exact)
  have prod: "rd (MAX_DIFF_RATIO * 200) = 2"
    using rd_scale_up [of "5764607523034235 / 2 ^ 59 * 200" 51]
    by (simp add: MAX_DIFF_RATIO_eval round_even_def Let_def)
  have md: "maxDiff_of 200 = 50"
    unfolding maxDiff_of_def d prod MIN_DIFF_def
    by (simp add: to_uint64_def to_double_def rd_numeral_exact)
  show "targetMin_of 200 = 150"
    unfolding targetMin_of_def md d by (simp add: to_uint64_def rd_numeral_exact)
  show "targetMax_of 200 = 250"
    unfolding targetMax_of_def md d by (simp add: to_uint64_def rd_numeral_exact)
qed

lemma targets_3000: "targetMin_of 3000 = 2950" "targetMax_of 3000 = 3050"
proof -
  have d: "to_double 3000 = 3000"
    by (simp add: to_double_def rd_numeral_exact)
  have prod: "rd (MAX_DIFF_RATIO * 3000) = 30"
    using rd_scale_up [of "5764607523034235 / 2 ^ 59 * 3000" 48]
    by (simp add: MAX_DIFF_RATIO_eval round_even_def Let_def)
  have md: "maxDiff_of 3000 = 50"
    unfolding maxDiff_of_def d prod MIN_DIFF_def
    by (simp add: to_uint64_def to_double_def rd_numeral_exact)
  show "targetMin_of 3000 = 2950"
    unfolding targetMin_of_def md d by (simp add: to_uint64_def rd_numeral_exact)
  show "targetMax_of 3000 = 3050"
    unfolding targetMax_of_def md d by (simp add: to_uint64_def rd_numeral_exact)
qed

lemma SumProbabilities_ivs0: "SumProbabilities ivs0 = 1"
  by (simp add: SumProbabilities_def ivs0_def rd_1)

lemma GenerateRandomValue_ivs0_zero:
  "GenerateRandomValue ivs0 1 \<lparr>outputs = (\<lambda>_. 0), consumed = k\<rparr>
   = (50, \<lparr>outputs = (\<lambda>_. 0), consumed = k + 2\<rparr>)"
  by (simp add: GenerateRandomValue_def RandomDouble_def RandomUInt_def engine_next_def ivs0_def
      Let_def rd_1)

lemma GenerateRandomValue_ivs0:
  "GenerateRandomValue ivs0 1 \<lparr>outputs = (\<lambda>_. 15), consumed = k\<rparr>
   = (65, \<lparr>outputs = (\<lambda>_. 15), consumed = k + 2\<rparr>)"
  by (simp add: GenerateRandomValue_def RandomDouble_def RandomUInt_def engine_next_def ivs0_def
      Let_def rd_1)

lemma search_0:
  "search ivs0 2 100 [0, 0] (engine_const 0)
   = \<lparr>st_values = [50, 50], st_valuesSum = 100, st_bestValues = [50, 50], st_bestDiff = 0,
      st_rng = \<lparr>outputs = (\<lambda>_. 0), consumed = 4\<rparr>\<rparr>"
proof -
  have fill: "initial_fill ivs0 1 [0, 0] 0 (engine_const 0)
      = ([50, 50], 100, \<lparr>outputs = (\<lambda>_. 0), consumed = 4\<rparr>)"
    by (simp add: engine_const_def GenerateRandomValue_ivs0_zero)
  show ?thesis
    unfolding search_def initial_state_def Let_def SumProbabilities_ivs0 fill targets_100
    by (simp add: absdiff_def attempts_in_band)
qed

lemma search_15:
  "search ivs0 2 100 [0, 0] (engine_const 15)
   = \<lparr>st_values = [65, 65], st_valuesSum = 130, st_bestValues = [65, 65], st_bestDiff = 30,
      st_rng = \<lparr>outputs = (\<lambda>_. 15), consumed = 4\<rparr>\<rparr>"
proof -
  have fill: "initial_fill ivs0 1 [0, 0] 0 (engine_const 15)
      = ([65, 65], 130, \<lparr>outputs = (\<lambda>_. 15), consumed = 4\<rparr>)"
    by (simp add: engine_const_def GenerateRandomValue_ivs0)
  show ?thesis
    unfolding search_def initial_state_def Let_def SumProbabilities_ivs0 fill targets_100
    by (simp add: absdiff_def attempts_in_band)
qed

lemma finalDiffRatio_15:
  "finalDiffRatio (search ivs0 2 100 [0, 0] (engine_const 15)) 100 = 5404319552844595 / 2 ^ 54"
proof -
  have d: "to_double 100 = 100" "to_double 30 = 30"
    by (simp_all add: to_double_def rd_numeral_exact)
  show ?thesis
    unfolding finalDiffRatio_def search_15 by (simp add: d ratio_30_100)
qed

lemma finalDiffRatio_0:
  "finalDiffRatio (search ivs0 2 100 [0, 0] (engine_const 0)) 100 = 0"
  unfolding finalDiffRatio_def search_0 by (simp add: to_double_def rd_zero)

lemma SumProbabilities_ivs1: "SumProbabilities ivs1 = 1"
proof -
  have q: "rd (1 / 4) = 1 / 4" using rd_quarter by simp
  show ?thesis by (simp add: SumProbabilities_def ivs1_def q rd_1)
qed

lemma GenerateRandomValue_ivs1_high:
  "GenerateRandomValue ivs1 1 \<lparr>outputs = (\<lambda>_. 1073743200), consumed = k\<rparr>
   = (1000, \<lparr>outputs = (\<lambda>_. 1073743200), consumed = k + 2\<rparr>)"
proof -
  have q: "rd (1 / 4) = 1 / 4" using rd_quarter by simp
  show ?thesis
    by (simp add: GenerateRandomValue_def RandomDouble_def RandomUInt_def engine_next_def
        ivs1_def Let_def q rd_1)
qed

lemma initial_state_high:
  "initial_state ivs1 desiredBytes [0, 0] (engine_const 1073743200)
   = \<lparr>st_values = [1000, 1000], st_valuesSum = 2000,
      st_bestValues = [1000, 1000], st_bestDiff = absdiff 2000 desiredBytes,
      st_rng = \<lparr>outputs = (\<lambda>_. 1073743200), consumed = 4\<rparr>\<rparr>"
proof -
  have fill: "initial_fill ivs1 1 [0, 0] 0 (engine_const 1073743200)
      = ([1000, 1000], 2000, \<lparr>outputs = (\<lambda>_. 1073743200), consumed = 4\<rparr>)"
    by (simp add: engine_const_def GenerateRandomValue_ivs1_high)
  show ?thesis
    unfolding initial_state_def Let_def SumProbabilities_ivs1 fill
    by simp
qed

lemma SumProbabilities_ivs3: "SumProbabilities ivs3 = 1"
  by (simp add: SumProbabilities_def ivs3_def rd_half rd_1)

lemma GenerateRandomValue_ivs3:
  "GenerateRandomValue ivs3 1 \<lparr>outputs = (\<lambda>_. 3221225479), consumed = k\<rparr>
   = (57, \<lparr>outputs = (\<lambda>_. 3221225479), consumed = k + 2\<rparr>)"
  by (simp add: GenerateRandomValue_def RandomDouble_def RandomUInt_def engine_next_def
      ivs3_def Let_def rd_half rd_1)

lemma GenerateRandomValue_ivs3_claim:
  "GenerateRandomValue [\<lparr>m_from = 10, m_to = 20, m_probability = 1 / 2\<rparr>,
                        \<lparr>m_from = 50, m_to = 65, m_probability = 0\<rparr>] (1 / 2)
      \<lparr>outputs = (\<lambda>_. 3221225479), consumed = k\<rparr>
   = (20, \<lparr>outputs = (\<lambda>_. 3221225479), consumed = k + 2\<rparr>)"
  by (simp add: GenerateRandomValue_def RandomDouble_def RandomUInt_def engine_next_def
      Let_def rd_half)

lemma initial_state_ivs3:
  "initial_state ivs3 200 [0, 0, 0, 0, 0] (engine_const 3221225479)
   = \<lparr>st_values = [57, 57, 57, 57, 57], st_valuesSum = 285,
      st_bestValues = [57, 57, 57, 57, 57], st_bestDiff = 85,
      st_rng = \<lparr>outputs = (\<lambda>_. 3221225479), consumed = 10\<rparr>\<rparr>"
proof -
  have fill: "initial_fill ivs3 1 [0, 0, 0, 0, 0] 0 (engine_const 3221225479)
      = ([57, 57, 57, 57, 57], 285, \<lparr>outputs = (\<lambda>_. 3221225479), consumed = 10\<rparr>)"
    by (simp add: engine_const_def GenerateRandomValue_ivs3)
  show ?thesis
    unfolding initial_state_def Let_def SumProbabilities_ivs3 fill
    by (simp add: absdiff_def)
qed

text \<open>
  The two doubles of \<^verbatim>\<open>MakeIcmpLayer\<close> over the numbers of the profile.
\<close>

lemma unat_min: "unat (min a b) = min (unat a) (unat b)" for a b :: u64
  by (simp add: min_def word_le_nat_alt)

lemma unat_max: "unat (max a b) = max (unat a) (unat b)" for a b :: u64
  by (simp add: max_def word_le_nat_alt)

lemma packets_present:
  "(m_fwdPackets flow + m_revPackets flow > 0)
   = ((unat (m_fwdPackets flow) + unat (m_revPackets flow)) mod 2 ^ 64 \<noteq> 0)"
  by (simp add: word_gt_0 unat_eq_0 [symmetric] unat_word_ariths)

lemma fwdRevRatioDiff_amended:
  "fwdRevRatioDiff flow = amended_ratioDiff (unat (m_fwdPackets flow)) (unat (m_revPackets flow))"
  unfolding fwdRevRatioDiff_def amended_ratioDiff_def packets_present
  by (simp add: to_double_def unat_min unat_max)

lemma bytesPerPkt_amended:
  "bytesPerPkt flow = amended_bpp (unat (m_fwdPackets flow)) (unat (m_revPackets flow))
           (unat (m_fwdBytes flow)) (unat (m_revBytes flow))"
  unfolding bytesPerPkt_def amended_bpp_def packets_present
  by (simp add: to_double_def unat_div unat_word_ariths)


lemma draw_34: "fst (RandomDouble 0 1 (engine_const 3221225472)) = 0.75"
  by (simp add: RandomDouble_def engine_next_def engine_const_def Let_def)




text \<open>The draws and the sort of \<^verbatim>\<open>PlanPacketsTimestamps\<close>.\<close>

lemma uniform_int_distribution_range:
  assumes "a \<le> b"
  shows "a \<le> fst (uniform_int_distribution a b gen) \<and> fst (uniform_int_distribution a b gen) \<le> b"
proof -
  define n where "n = nat (b - a + 1)"
  have pos: "0 < n" using assms by (simp add: n_def)
  have int_n: "int n = b - a + 1" using assms by (simp add: n_def)
  have "int (r mod n) < int n" for r
    using pos by (simp only: of_nat_less_iff) simp
  then have bound: "int (r mod n) \<le> b - a" for r
    using int_n by (metis add.commute zle_diff1_eq diff_add_cancel add_diff_cancel_right' zless_add1_eq)
  have "fst (uniform_int_distribution a b gen) = a + int (outputs gen (consumed gen) mod n)"
    by (simp add: uniform_int_distribution_def engine_next_def Let_def n_def)
  then show ?thesis
    using bound [of "outputs gen (consumed gen)"] by simp
qed

lemma tv_le_key: "tv_le a b \<longleftrightarrow> tv_key a \<le> tv_key b"
  by (auto simp: tv_le_def tv_less_def tv_key_def)

lemma tv_key_inj: "tv_key a = tv_key b \<Longrightarrow> a = b"
  by (simp add: tv_key_def)

lemma gen_timestamps_length: "length (fst (gen_timestamps n tsFirst tsLast gen)) = n"
  by (induction n arbitrary: gen) (simp_all add: Let_def case_prod_beta)

lemma gen_timestamps_range:
  assumes "tv_valid tsFirst" and "tv_valid tsLast" and "tv_le tsFirst tsLast"
  shows "t \<in> set (fst (gen_timestamps n tsFirst tsLast gen)) \<Longrightarrow> tv_le tsFirst t \<and> tv_le t tsLast"
proof (induction n arbitrary: gen)
  case 0
  then show ?case by simp
next
  case (Suc n)
  have secs: "tv_sec tsFirst \<le> tv_sec tsLast"
    using assms(3) by (auto simp: tv_le_def tv_less_def split: if_splits)
  define sec where "sec = fst (uniform_int_distribution (tv_sec tsFirst) (tv_sec tsLast) gen)"
  define gen1 where "gen1 = snd (uniform_int_distribution (tv_sec tsFirst) (tv_sec tsLast) gen)"
  define usec where "usec = fst
     (if sec = tv_sec tsFirst then
        (if tv_sec tsFirst = tv_sec tsLast
         then uniform_int_distribution (tv_usec tsFirst) (tv_usec tsLast)
         else uniform_int_distribution (tv_usec tsFirst) 999999) gen1
      else if sec = tv_sec tsLast then
        (if tv_sec tsFirst = tv_sec tsLast
         then uniform_int_distribution (tv_usec tsFirst) (tv_usec tsLast)
         else uniform_int_distribution 0 (tv_usec tsLast)) gen1
      else uniform_int_distribution 0 999999 gen1)"
  define gen2 where "gen2 = snd
     (if sec = tv_sec tsFirst then
        (if tv_sec tsFirst = tv_sec tsLast
         then uniform_int_distribution (tv_usec tsFirst) (tv_usec tsLast)
         else uniform_int_distribution (tv_usec tsFirst) 999999) gen1
      else if sec = tv_sec tsLast then
        (if tv_sec tsFirst = tv_sec tsLast
         then uniform_int_distribution (tv_usec tsFirst) (tv_usec tsLast)
         else uniform_int_distribution 0 (tv_usec tsLast)) gen1
      else uniform_int_distribution 0 999999 gen1)"
  have unfold: "fst (gen_timestamps (Suc n) tsFirst tsLast gen)
      = \<lparr>tv_sec = sec, tv_usec = usec\<rparr> # fst (gen_timestamps n tsFirst tsLast gen2)"
    by (simp add: Let_def case_prod_beta sec_def gen1_def usec_def gen2_def)
  have sec_range: "tv_sec tsFirst \<le> sec \<and> sec \<le> tv_sec tsLast"
    unfolding sec_def by (rule uniform_int_distribution_range [OF secs])
  have head: "tv_le tsFirst \<lparr>tv_sec = sec, tv_usec = usec\<rparr>
      \<and> tv_le \<lparr>tv_sec = sec, tv_usec = usec\<rparr> tsLast"
  proof (cases "sec = tv_sec tsFirst")
    case True
    show ?thesis
    proof (cases "tv_sec tsFirst = tv_sec tsLast")
      case same: True
      have le: "tv_usec tsFirst \<le> tv_usec tsLast"
        using assms(3) same by (auto simp: tv_le_def tv_less_def)
      have "usec = fst (uniform_int_distribution (tv_usec tsFirst) (tv_usec tsLast) gen1)"
        using True same by (simp add: usec_def)
      then have "tv_usec tsFirst \<le> usec \<and> usec \<le> tv_usec tsLast"
        using uniform_int_distribution_range [OF le, of gen1] by simp
      then show ?thesis using True same by (auto simp: tv_le_def tv_less_def)
    next
      case diff: False
      have le: "tv_usec tsFirst \<le> 999999" using assms(1) by (simp add: tv_valid_def)
      have "usec = fst (uniform_int_distribution (tv_usec tsFirst) 999999 gen1)"
        using True diff by (simp add: usec_def)
      then have "tv_usec tsFirst \<le> usec"
        using uniform_int_distribution_range [OF le, of gen1] by simp
      then show ?thesis using True diff secs by (auto simp: tv_le_def tv_less_def)
    qed
  next
    case False
    show ?thesis
    proof (cases "sec = tv_sec tsLast")
      case last: True
      have le: "0 \<le> tv_usec tsLast" using assms(2) by (simp add: tv_valid_def)
      have "usec = fst (uniform_int_distribution 0 (tv_usec tsLast) gen1)"
        using False last by (auto simp add: usec_def)
      then have "usec \<le> tv_usec tsLast"
        using uniform_int_distribution_range [OF le, of gen1] by simp
      then show ?thesis using False last sec_range by (auto simp: tv_le_def tv_less_def)
    next
      case mid: False
      then show ?thesis using False sec_range by (auto simp: tv_le_def tv_less_def)
    qed
  qed
  have "t = \<lparr>tv_sec = sec, tv_usec = usec\<rparr>
      \<or> t \<in> set (fst (gen_timestamps n tsFirst tsLast gen2))"
    using Suc.prems unfolding unfold by simp
  then show ?case using head Suc.IH [of gen2] by blast
qed

lemma sorted_key_hd_least:
  "sorted (map f xs) \<Longrightarrow> x \<in> set xs \<Longrightarrow> f (hd xs) \<le> f x"
  by (cases xs) auto

lemma sorted_key_last_greatest:
  "sorted (map f xs) \<Longrightarrow> x \<in> set xs \<Longrightarrow> f x \<le> f (last xs)"
proof (induction xs)
  case Nil
  then show ?case by simp
next
  case (Cons y ys)
  then show ?case by (cases ys) auto
qed

lemma map2_timestamps:
  "length ts = length ps \<Longrightarrow>
   map m_timestamp (map2 (\<lambda>packet t. packet\<lparr>m_timestamp := t\<rparr>) ps ts) = ts"
  by (induction ps ts rule: list_induct2') simp_all

lemma flow3_packets: "length (m_packets flow3) = 3"
  by (simp add: flow3_def new_flow_def)

section \<open>Properties of the address generators\<close>

text \<open>
  C2, as claimed: a generator built with seed 1 returns 0.0.188.143 (the encoding of
  48271) from its first \<^verbatim>\<open>GenerateIPv4\<close>. It does not: the constructor's \<^verbatim>\<open>NextSeed\<close> has
  already made one Lehmer step, to 48271, and the first \<^verbatim>\<open>NextValue\<close> makes a second.
\<close>

theorem first_ipv4_seed1_not_48271: "first_ipv4 1 \<noteq> Inr [0, 0, 188, 143]"
  by (simp add: first_ipv4_def AddressGenerators_new_def NextSeed_def GenerateIPv4_def
      NextValue_def lehmer_step_def byte_of_def Let_def word_le_nat_alt)

text \<open>
  C2, amended: the constructor fails with InvalidSeed for seed 0, and with seed 1 the
  first \<^verbatim>\<open>GenerateIPv4\<close> returns 10.226.87.226, the big-endian encoding of
  \<open>48271 * 48271 mod (2^31 - 1) = 182605794\<close>: two Lehmer steps from the seed.
\<close>

theorem first_ipv4_seed0_seed1:
  "first_ipv4 0 = Inl InvalidSeed
   \<and> first_ipv4 1 = Inr [10, 226, 87, 226]
   \<and> lehmer_step (lehmer_step 1) = 182605794
   \<and> (182605794 :: nat) = 48271 * 48271 mod (2 ^ 31 - 1)"
  by (simp add: first_ipv4_def AddressGenerators_new_def NextSeed_def GenerateIPv4_def
      NextValue_def lehmer_step_def byte_of_def Let_def word_le_nat_alt)

section \<open>Properties of the packet size generator\<close>




text \<open>
  C10: \<^verbatim>\<open>GetValueExact(v)\<close> returns normally on every state (the function has no failing
  branch), adds 1 to \<^verbatim>\<open>_assignedPkts\<close> and the caller's \<open>v\<close> to \<^verbatim>\<open>_assignedBytes\<close> (in
  \<^verbatim>\<open>uint64_t\<close> arithmetic) whatever the pool holds, and on an empty pool changes nothing
  else: the pool stays empty and the random generator is not used.
\<close>

theorem GetValueExact_counters:
  "m_assignedPkts (fst (GetValueExact v s rng)) = m_assignedPkts s + 1
   \<and> m_assignedBytes (fst (GetValueExact v s rng)) = m_assignedBytes s + v
   \<and> (m_values s = [] \<longrightarrow>
        GetValueExact v s rng =
          (s\<lparr>m_assignedPkts := m_assignedPkts s + 1,
             m_assignedBytes := m_assignedBytes s + v\<rparr>, rng)
        \<and> m_values (fst (GetValueExact v s rng)) = [])"
  by (simp add: GetValueExact_def Let_def split: prod.splits)

theorem GetValueExact_counters_witness:
  "m_values (psg0 3 200) = []
   \<and> m_values (fst (GetValueExact 36 (psg0 3 200) (engine_const 0))) = []
   \<and> m_assignedPkts (fst (GetValueExact 36 (psg0 3 200) (engine_const 0))) = 1
   \<and> m_assignedBytes (fst (GetValueExact 36 (psg0 3 200) (engine_const 0))) = 36
   \<and> snd (GetValueExact 36 (psg0 3 200) (engine_const 0)) = engine_const 0"
  using GetValueExact_counters [of 36 "psg0 3 200" "engine_const 0"]
  by (simp add: psg0_def)

text \<open>
  C8, as claimed: in a generation run for at least 2 packets and at least 1 byte whose
  best observed difference, divided by the bytes asked for, exceeds 0.2, every slot of the
  pool is set to 1. The code takes the quotient in doubles and compares it with the double
  nearest to 0.2. For 3 packets and 20000000000000014 bytes over the single value
  5333333333333337 the pool stays at three times that value, and the best difference is
  4000000000000003: the exact quotient exceeds 0.2, the quotient of the doubles
  (the byte count rounds to 20000000000000016) is 0.19999999999999998, and the pool is
  kept.
\<close>

theorem Generate_rounded_ratio_keeps_pool:
  "(2::u64) \<le> 3 \<and> (1::u64) \<le> 20000000000000014
   \<and> real (unat (st_bestDiff (search (one_point 5333333333333337) 3 20000000000000014
                    [0, 0, 0] (engine_const 0))))
       / real (unat (20000000000000014::u64)) > 0.2
   \<and> m_values (fst (Generate (\<lambda>_. 0) 3 20000000000000014
        (psg_of (one_point 5333333333333337) 3 20000000000000014) (engine_const 0)))
     = [5333333333333337, 5333333333333337, 5333333333333337]"
proof -
  define st where "st = search (one_point 5333333333333337) 3 20000000000000014
      [0, 0, 0] (engine_const 0)"
  have best: "st_bestValues st = [5333333333333337, 5333333333333337, 5333333333333337]"
    and diff: "st_bestDiff st = 4000000000000003"
    unfolding st_def
    using search_one_point [of 5333333333333337 3 20000000000000014 "[0, 0, 0]" "engine_const 0"]
    by (simp_all add: absdiff_def replicate_3)
  have small: "to_double 4000000000000003 = 4000000000000003"
    by (simp add: to_double_def rd_numeral_exact)
  have ratio: "finalDiffRatio st 20000000000000014 = 7205759403792793 / 2 ^ 55"
    unfolding finalDiffRatio_def diff small to_double_big by (rule ratio_big)
  have keep: "\<not> finalDiffRatio st 20000000000000014 > DIFF_RATIO_FALLBACK_TO_UNIFORM"
    unfolding ratio DIFF_RATIO_FALLBACK_TO_UNIFORM_eval by simp
  have rs: "resize 3 [] = [0, 0, 0]" by (simp add: resize_def replicate_3)
  have pool: "m_values (fst (Generate (\<lambda>_. 0) 3 20000000000000014
        (psg_of (one_point 5333333333333337) 3 20000000000000014) (engine_const 0)))
      = shuffle (\<lambda>_. 0) (st_bestValues st)"
    using keep by (simp add: Generate_def Let_def psg_of_def rs st_def)
  show ?thesis
    unfolding st_def [symmetric] pool best diff
    using shuffle_replicate [of "\<lambda>_. 0" 3 "5333333333333337::u64"] by (simp add: replicate_3)
qed

text \<open>
  C8, amended: in a generation run for at least 2 packets and at least 1 byte in which
  the quotient of the best observed difference by the bytes asked for, both converted to
  double and divided as doubles, exceeds the double nearest to 0.2, every slot of the pool
  is set to 1: the pool is as long as the packets asked for, and
  \<^verbatim>\<open>desiredBytes / desiredBytes\<close> divides by a number that is not zero and gives 1.
\<close>

theorem Generate_fallback_all_ones:
  assumes "2 \<le> desiredPkts" and "1 \<le> desiredBytes"
    and "finalDiffRatio (search (m_intervals s) desiredPkts desiredBytes
            (resize (unat desiredPkts) (m_values s)) rng) desiredBytes
         > DIFF_RATIO_FALLBACK_TO_UNIFORM"
  shows "m_values (fst (Generate dre desiredPkts desiredBytes s rng)) = replicate (unat desiredPkts) 1
         \<and> desiredBytes \<noteq> 0 \<and> desiredBytes div desiredBytes = 1"
proof -
  from assms(2) have nz: "desiredBytes \<noteq> 0" by auto
  from assms(1) have n0: "desiredPkts \<noteq> 0" and n1: "desiredPkts \<noteq> 1"
    by (auto simp: word_le_nat_alt)
  have "unat (desiredBytes div desiredBytes) = unat (1::u64)"
    using nz by (simp add: unat_div unat_eq_0)
  then have dv: "desiredBytes div desiredBytes = 1"
    by (simp only: word_unat_eq_iff)
  show ?thesis
    using assms(3) nz n0 n1 dv
    by (simp add: Generate_def Let_def search_length resize_def)
qed

theorem Generate_fallback_all_ones_witness:
  "(2::u64) \<le> 2 \<and> (1::u64) \<le> 100
   \<and> finalDiffRatio (search ivs0 2 100 [0, 0] (engine_const 15)) 100
       > DIFF_RATIO_FALLBACK_TO_UNIFORM
   \<and> m_values (fst (Generate (\<lambda>_. 0) 2 100 (psg0 2 100) (engine_const 15))) = [1, 1]"
proof -
  have r: "finalDiffRatio (search ivs0 2 100 [0, 0] (engine_const 15)) 100
      > DIFF_RATIO_FALLBACK_TO_UNIFORM"
    unfolding finalDiffRatio_15 DIFF_RATIO_FALLBACK_TO_UNIFORM_eval by simp
  have rs: "resize (unat (2::u64)) (m_values (psg0 2 100)) = [0, 0]"
    by (simp add: resize_def psg0_def replicate_2)
  have iv: "m_intervals (psg0 2 100) = ivs0" by (simp add: psg0_def)
  have "m_values (fst (Generate (\<lambda>_. 0) 2 100 (psg0 2 100) (engine_const 15)))
      = replicate (unat (2::u64)) 1"
    using Generate_fallback_all_ones [of 2 100 "psg0 2 100" "engine_const 15" "\<lambda>_. 0"] r
    unfolding rs iv by simp
  then show ?thesis using r by (simp add: replicate_2)
qed

text \<open>
  C5, as claimed: in an attempt whose sum is above \<open>targetMax\<close>, an interval whose
  midpoint is above the average gets probability zero. The code compares the whole-number
  midpoint \<^verbatim>\<open>_from / 2 + _to / 2\<close> with the whole-number average
  \<^verbatim>\<open>valuesSum / desiredPkts\<close>. A run for 5 packets and 200 bytes over \<open>ivs3\<close> that first
  draws 57 five times has the sum 285, above the upper target 250, and the average 57.
  The midpoint of \<open>[50, 65]\<close> is 57.5, above the average, so that the claim gives the
  interval probability zero: the attempt would then draw from \<open>[10, 20]\<close>, and its first
  draw, 20, would bring the sum to 248. The whole-number midpoint is \<open>25 + 32 = 57\<close>, not
  above the average: the code runs the attempt over the intervals unchanged, draws 57
  again from \<open>[50, 65]\<close>, and the pool stays as it is.
\<close>

theorem attempts_keeps_interval_claimed_zero:
  "st_valuesSum (initial_state ivs3 200 [0, 0, 0, 0, 0] (engine_const 3221225479)) = 285
   \<and> (285::u64) > targetMax_of 200
   \<and> claim_zeroed 285 (targetMin_of 200) (targetMax_of 200) 5
        \<lparr>m_from = 50, m_to = 65, m_probability = 0.5\<rparr>
   \<and> claim_biased 285 (targetMin_of 200) (targetMax_of 200) 5 ivs3
     = [\<lparr>m_from = 10, m_to = 20, m_probability = 0.5\<rparr>,
        \<lparr>m_from = 50, m_to = 65, m_probability = 0\<rparr>]
   \<and> st_values (attempt_with (claim_biased 285 (targetMin_of 200) (targetMax_of 200) 5 ivs3)
        (targetMin_of 200) (targetMax_of 200) 200
        (initial_state ivs3 200 [0, 0, 0, 0, 0] (engine_const 3221225479)))
     = [20, 57, 57, 57, 57]
   \<and> attempts (Suc 0) ivs3 5 (targetMin_of 200) (targetMax_of 200) 200
        (initial_state ivs3 200 [0, 0, 0, 0, 0] (engine_const 3221225479))
     = attempt_with ivs3 (targetMin_of 200) (targetMax_of 200) 200
         (initial_state ivs3 200 [0, 0, 0, 0, 0] (engine_const 3221225479))
   \<and> st_values (attempts (Suc 0) ivs3 5 (targetMin_of 200) (targetMax_of 200) 200
        (initial_state ivs3 200 [0, 0, 0, 0, 0] (engine_const 3221225479)))
     = [57, 57, 57, 57, 57]"
proof -
  have b: "bias_intervals 285 150 250 (285 div 5) ivs3 = ivs3"
    by (simp add: bias_intervals_def ivs3_def interAvg_def)
  have c: "claim_zeroed 285 150 250 5 \<lparr>m_from = 50, m_to = 65, m_probability = 0.5\<rparr>"
    by (simp add: claim_zeroed_def claim_midpoint_def)
  have cb: "claim_biased 285 150 250 5 ivs3
      = [\<lparr>m_from = 10, m_to = 20, m_probability = 0.5\<rparr>,
         \<lparr>m_from = 50, m_to = 65, m_probability = 0\<rparr>]"
    by (simp add: claim_biased_def claim_zeroed_def claim_midpoint_def ivs3_def)
  have sp: "SumProbabilities [\<lparr>m_from = 10, m_to = 20, m_probability = 0.5\<rparr>,
                              \<lparr>m_from = 50, m_to = 65, m_probability = 0\<rparr>] = 1 / 2"
    by (simp add: SumProbabilities_def rd_half)
  have claim_run: "st_values (attempt_with
        [\<lparr>m_from = 10, m_to = 20, m_probability = 0.5\<rparr>,
         \<lparr>m_from = 50, m_to = 65, m_probability = 0\<rparr>] 150 250 200
        \<lparr>st_values = [57, 57, 57, 57, 57], st_valuesSum = 285,
         st_bestValues = [57, 57, 57, 57, 57], st_bestDiff = 85,
         st_rng = \<lparr>outputs = (\<lambda>_. 3221225479), consumed = 10\<rparr>\<rparr>)
      = [20, 57, 57, 57, 57]"
    unfolding attempt_with_def Let_def sp
    by (simp add: GenerateRandomValue_ivs3_claim absdiff_def Let_def)
  have code_run: "st_values (attempt_with ivs3 150 250 200
        \<lparr>st_values = [57, 57, 57, 57, 57], st_valuesSum = 285,
         st_bestValues = [57, 57, 57, 57, 57], st_bestDiff = 85,
         st_rng = \<lparr>outputs = (\<lambda>_. 3221225479), consumed = 10\<rparr>\<rparr>)
      = [57, 57, 57, 57, 57]"
    unfolding attempt_with_def Let_def SumProbabilities_ivs3
    by (simp add: GenerateRandomValue_ivs3 absdiff_def Let_def)
  show ?thesis
    unfolding targets_200 initial_state_ivs3 cb
    using b c claim_run code_run by (simp add: Let_def)
qed

text \<open>
  C5, amended: an attempt is made when the sum is below \<open>targetMin\<close> or above
  \<open>targetMax\<close>, and it draws from the intervals biased as follows. When the sum is below
  \<open>targetMin\<close>, the intervals whose whole-number midpoint (each bound halved, then added)
  is below the whole-number average (the sum divided by the packet count, the remainder
  dropped) get probability zero; when the sum is above \<open>targetMax\<close> (and not below
  \<open>targetMin\<close>), those whose whole-number midpoint is above the whole-number average get
  probability zero; every other interval keeps its probability, and every interval its
  bounds. The two branches are mirrored. With the sum within the targets no attempt is
  made.
\<close>

theorem attempts_biases_by_truncated_midpoint:
  "(st_valuesSum st < targetMin \<or> st_valuesSum st > targetMax \<longrightarrow>
      attempts (Suc numAttempts) intervals desiredPkts targetMin targetMax desiredBytes st
      = attempts numAttempts intervals desiredPkts targetMin targetMax desiredBytes
          (attempt_with (amended_biased (st_valuesSum st) targetMin targetMax desiredPkts intervals)
             targetMin targetMax desiredBytes st))
   \<and> (targetMin \<le> st_valuesSum st \<and> st_valuesSum st \<le> targetMax \<longrightarrow>
      attempts (Suc numAttempts) intervals desiredPkts targetMin targetMax desiredBytes st = st)"
proof -
  have "bias_intervals (st_valuesSum st) targetMin targetMax (st_valuesSum st div desiredPkts)
          intervals
        = amended_biased (st_valuesSum st) targetMin targetMax desiredPkts intervals"
    if "st_valuesSum st < targetMin \<or> st_valuesSum st > targetMax"
    using that by (auto simp add: bias_intervals_def amended_biased_def amended_zeroed_def
        interAvg_def)
  then show ?thesis by (auto simp add: Let_def)
qed

theorem attempts_biases_by_truncated_midpoint_witness:
  "st_valuesSum (initial_state ivs1 3000 [0, 0] (engine_const 1073743200)) = 2000
   \<and> (2000::u64) < targetMin_of 3000
   \<and> attempts (Suc 0) ivs1 2 (targetMin_of 3000) (targetMax_of 3000) 3000
        (initial_state ivs1 3000 [0, 0] (engine_const 1073743200))
     = attempt_with [\<lparr>m_from = 50, m_to = 65, m_probability = 0\<rparr>,
                     \<lparr>m_from = 1000, m_to = 1500, m_probability = 0.75\<rparr>]
         (targetMin_of 3000) (targetMax_of 3000) 3000
         (initial_state ivs1 3000 [0, 0] (engine_const 1073743200))
   \<and> st_valuesSum (initial_state ivs1 100 [0, 0] (engine_const 1073743200)) = 2000
   \<and> (2000::u64) > targetMax_of 100
   \<and> attempts (Suc 0) ivs1 2 (targetMin_of 100) (targetMax_of 100) 100
        (initial_state ivs1 100 [0, 0] (engine_const 1073743200))
     = attempt_with [\<lparr>m_from = 50, m_to = 65, m_probability = 0.25\<rparr>,
                     \<lparr>m_from = 1000, m_to = 1500, m_probability = 0\<rparr>]
         (targetMin_of 100) (targetMax_of 100) 100
         (initial_state ivs1 100 [0, 0] (engine_const 1073743200))
   \<and> attempts (Suc 0) ivs0 2 (targetMin_of 100) (targetMax_of 100) 100
        (initial_state ivs0 100 [0, 0] (engine_const 0))
     = initial_state ivs0 100 [0, 0] (engine_const 0)"
proof -
  have lo: "amended_biased 2000 2950 3050 2 ivs1
      = [\<lparr>m_from = 50, m_to = 65, m_probability = 0\<rparr>,
         \<lparr>m_from = 1000, m_to = 1500, m_probability = 0.75\<rparr>]"
    by (simp add: amended_biased_def amended_zeroed_def ivs1_def)
  have hi: "amended_biased 2000 50 150 2 ivs1
      = [\<lparr>m_from = 50, m_to = 65, m_probability = 0.25\<rparr>,
         \<lparr>m_from = 1000, m_to = 1500, m_probability = 0\<rparr>]"
    by (simp add: amended_biased_def amended_zeroed_def ivs1_def)
  have s: "st_valuesSum (initial_state ivs1 b [0, 0] (engine_const 1073743200)) = 2000" for b
    by (simp add: initial_state_high)
  have fill0: "initial_fill ivs0 1 [0, 0] 0 (engine_const 0)
      = ([50, 50], 100, \<lparr>outputs = (\<lambda>_. 0), consumed = 4\<rparr>)"
    by (simp add: engine_const_def GenerateRandomValue_ivs0_zero)
  have s0: "st_valuesSum (initial_state ivs0 100 [0, 0] (engine_const 0)) = 100"
    unfolding initial_state_def Let_def SumProbabilities_ivs0 fill0 by simp
  show ?thesis
    using attempts_biases_by_truncated_midpoint
        [of "initial_state ivs1 3000 [0, 0] (engine_const 1073743200)" 2950 3050 0 ivs1 2 3000]
      attempts_biases_by_truncated_midpoint
        [of "initial_state ivs1 100 [0, 0] (engine_const 1073743200)" 50 150 0 ivs1 2 100]
      attempts_biases_by_truncated_midpoint
        [of "initial_state ivs0 100 [0, 0] (engine_const 0)" 50 150 0 ivs0 2 100]
    unfolding targets_3000 targets_100 s s0 lo hi
    by simp
qed

text \<open>
  The legacy ValueGenerator is different: whichever side the sum is on, it zeroes the
  intervals whose midpoint is below the average.
\<close>

lemma ValueGenerator_bias_identical:
  "ValueGenerator_bias valuesSum targetMin avgValue intervals
   = map (\<lambda>iv. if interAvg iv < avgValue then iv\<lparr>m_probability := 0\<rparr> else iv) intervals"
  by (simp add: ValueGenerator_bias_def)

section \<open>Values of the pool and the intervals\<close>

text \<open>
  C3, as claimed: whenever the sum of the output is within 0.2 of the bytes asked for,
  every value of the pool lies inside the union of the intervals, the case of one packet
  included. For one packet the single value is the byte count itself, and the sum is
  exactly the bytes asked for: with the interval \<open>[50, 65]\<close> and 1000 bytes the pool is
  \<open>[1000]\<close>, outside the interval.
\<close>

theorem Generate_single_value_outside:
  "intervals_wf ivs0
   \<and> m_values (fst (Generate (\<lambda>_. 0) 1 1000 (psg0 1 1000) (engine_const 0))) = [1000]
   \<and> absdiff 1000 (sum_list [1000]) = 0
   \<and> \<not> in_intervals ivs0 1000"
  by (simp add: Generate_def psg0_def resize_def ivs0_def intervals_wf_def in_intervals_def
      absdiff_def Let_def)

text \<open>
  C3, amended: for well-formed intervals, in a run for at least 2 packets and at least
  1 byte in which the quotient of the best observed difference by the bytes asked for,
  both converted to double and divided as doubles, is at most the double nearest to 0.2
  (the run that installs the best pool seen, not the fallback), every value of the pool
  lies inside the union of the intervals. In a run for 1 packet and at least 1 byte the
  pool is the byte count itself, inside an interval or not.
\<close>

theorem Generate_values_in_intervals:
  "(intervals_wf (m_intervals s) \<and> 2 \<le> desiredPkts \<and> 1 \<le> desiredBytes
      \<and> finalDiffRatio (search (m_intervals s) desiredPkts desiredBytes
            (resize (unat desiredPkts) (m_values s)) rng) desiredBytes
          \<le> DIFF_RATIO_FALLBACK_TO_UNIFORM
    \<longrightarrow> (\<forall>v \<in> set (m_values (fst (Generate dre desiredPkts desiredBytes s rng))).
          in_intervals (m_intervals s) v))
   \<and> (desiredBytes \<noteq> 0 \<longrightarrow> m_values (fst (Generate dre 1 desiredBytes s rng)) = [desiredBytes])"
proof -
  have one: "m_values (fst (Generate dre 1 desiredBytes s rng)) = [desiredBytes]"
    if "desiredBytes \<noteq> 0"
  proof -
    have "(resize (unat (1::u64)) (m_values s))[0 := desiredBytes] = [desiredBytes]"
      by (cases "m_values s") (simp_all add: resize_def)
    then show ?thesis using that by (simp add: Generate_def Let_def)
  qed
  have many: "in_intervals (m_intervals s) v"
    if wf: "intervals_wf (m_intervals s)" and n: "2 \<le> desiredPkts" and b: "1 \<le> desiredBytes"
      and r: "finalDiffRatio (search (m_intervals s) desiredPkts desiredBytes
            (resize (unat desiredPkts) (m_values s)) rng) desiredBytes
          \<le> DIFF_RATIO_FALLBACK_TO_UNIFORM"
      and v: "v \<in> set (m_values (fst (Generate dre desiredPkts desiredBytes s rng)))" for v
  proof -
    define st where "st = search (m_intervals s) desiredPkts desiredBytes
        (resize (unat desiredPkts) (m_values s)) rng"
    from b have nz: "desiredBytes \<noteq> 0" by auto
    from n have n0: "desiredPkts \<noteq> 0" and n1: "desiredPkts \<noteq> 1"
      by (auto simp: word_le_nat_alt)
    have "m_values (fst (Generate dre desiredPkts desiredBytes s rng)) = shuffle dre (st_bestValues st)"
      using r nz n0 n1
      by (simp add: Generate_def Let_def st_def)
    then have "v \<in> set (st_bestValues st)" using v by (simp add: shuffle_set)
    moreover have "pool_in (m_intervals s) st"
      unfolding st_def by (rule search_pool_in [OF wf])
    ultimately show ?thesis by (simp add: pool_in_def)
  qed
  show ?thesis using one many by blast
qed

theorem Generate_values_in_intervals_witness:
  "intervals_wf (m_intervals (psg0 2 100)) \<and> (2::u64) \<le> 2 \<and> (1::u64) \<le> 100
   \<and> finalDiffRatio (search ivs0 2 100 [0, 0] (engine_const 0)) 100
       \<le> DIFF_RATIO_FALLBACK_TO_UNIFORM
   \<and> m_values (fst (Generate (\<lambda>_. 0) 2 100 (psg0 2 100) (engine_const 0))) = [50, 50]
   \<and> in_intervals ivs0 (hd (m_values (fst (Generate (\<lambda>_. 0) 2 100 (psg0 2 100) (engine_const 0)))))
   \<and> m_values (fst (Generate (\<lambda>_. 0) 1 1000 (psg0 2 100) (engine_const 0))) = [1000]"
proof -
  have wf: "intervals_wf (m_intervals (psg0 2 100))"
    by (simp add: psg0_def ivs0_def intervals_wf_def)
  have r: "finalDiffRatio (search ivs0 2 100 [0, 0] (engine_const 0)) 100
      \<le> DIFF_RATIO_FALLBACK_TO_UNIFORM"
    unfolding finalDiffRatio_0 DIFF_RATIO_FALLBACK_TO_UNIFORM_eval by simp
  have rs: "resize (unat (2::u64)) (m_values (psg0 2 100)) = [0, 0]"
    by (simp add: resize_def psg0_def replicate_2)
  have rs2: "resize 2 (m_values (psg0 2 100)) = [0, 0]"
    by (simp add: resize_def psg0_def replicate_2)
  have iv: "m_intervals (psg0 2 100) = ivs0" by (simp add: psg0_def)
  have nf: "\<not> finalDiffRatio (search ivs0 2 100 [0, 0] (engine_const 0)) 100
      > DIFF_RATIO_FALLBACK_TO_UNIFORM"
    using r by simp
  have vals: "m_values (fst (Generate (\<lambda>_. 0) 2 100 (psg0 2 100) (engine_const 0))) = [50, 50]"
    using nf by (simp add: Generate_def Let_def iv rs2 search_0 shuffle_def swap_at_def)
  have "in_intervals ivs0 (hd (m_values (fst (Generate (\<lambda>_. 0) 2 100 (psg0 2 100) (engine_const 0)))))
      \<and> m_values (fst (Generate (\<lambda>_. 0) 1 1000 (psg0 2 100) (engine_const 0))) = [1000]"
    using Generate_values_in_intervals [of "psg0 2 100" 2 100 "engine_const 0" "\<lambda>_. 0"]
      Generate_values_in_intervals [of "psg0 2 100" 2 1000 "engine_const 0" "\<lambda>_. 0"]
      wf r rs iv vals
    by simp
  then show ?thesis using wf r vals by simp
qed

text \<open>
  The condition is on the quotient of the doubles, not on the exact quotient: for
  2 packets and 1233824352914720100 bytes over the single value 493529741165888040 the
  best difference is exactly 0.2 of the bytes asked for, the quotient of the doubles is
  0.20000000000000004, and the pool is filled with ones, outside the interval.
\<close>

lemma Generate_exact_ratio_fallback:
  "real (unat (st_bestDiff (search (one_point 493529741165888040) 2 1233824352914720100
                    [0, 0] (engine_const 0))))
       / real (unat (1233824352914720100::u64)) = 0.2
   \<and> m_values (fst (Generate (\<lambda>_. 0) 2 1233824352914720100
        (psg_of (one_point 493529741165888040) 2 1233824352914720100) (engine_const 0)))
     = [1, 1]
   \<and> \<not> in_intervals (one_point 493529741165888040) 1"
proof -
  define st where "st = search (one_point 493529741165888040) 2 1233824352914720100
      [0, 0] (engine_const 0)"
  have diff: "st_bestDiff st = 246764870582944020"
    unfolding st_def
    using search_one_point [of 493529741165888040 2 1233824352914720100 "[0, 0]" "engine_const 0"]
    by (simp add: absdiff_def)
  have len: "length (st_values st) = 2"
    unfolding st_def by (simp add: search_length)
  have b: "to_double 1233824352914720100 = 1233824352914720000"
    using rd_scale_down [of 1233824352914720100 8]
    by (simp add: to_double_def round_even_def Let_def)
  have d: "to_double 246764870582944020 = 246764870582944032"
    using rd_scale_down [of 246764870582944020 5]
    by (simp add: to_double_def round_even_def Let_def)
  have q: "rd (246764870582944032 / 1233824352914720000) = 7205759403792795 / 2 ^ 55"
    using rd_scale_up [of "246764870582944032 / 1233824352914720000" 55]
    by (simp add: round_even_def Let_def)
  have ratio: "finalDiffRatio st 1233824352914720100 = 7205759403792795 / 2 ^ 55"
    unfolding finalDiffRatio_def diff d b by (rule q)
  have fb: "finalDiffRatio st 1233824352914720100 > DIFF_RATIO_FALLBACK_TO_UNIFORM"
    unfolding ratio DIFF_RATIO_FALLBACK_TO_UNIFORM_eval by simp
  have rs: "resize 2 [] = [0, 0]" by (simp add: resize_def replicate_2)
  have pool: "m_values (fst (Generate (\<lambda>_. 0) 2 1233824352914720100
        (psg_of (one_point 493529741165888040) 2 1233824352914720100) (engine_const 0)))
      = [1, 1]"
    using fb len by (simp add: Generate_def Let_def psg_of_def rs st_def replicate_2)
  have out: "\<not> in_intervals (one_point 493529741165888040) 1"
    by (simp add: one_point_def in_intervals_def word_le_nat_alt)
  show ?thesis
    unfolding st_def [symmetric] pool diff using out by simp
qed

text \<open>
  The condition is on the best difference, not on the sum of the output: after the
  fallback the pool is all ones, whose sum can match the bytes asked for (2 packets and
  2 bytes over the interval \<open>[20, 30]\<close>) while 1 is outside every interval.
\<close>

lemma Generate_fallback_outside_intervals:
  "m_values (fst (Generate (\<lambda>_. 0) 2 2 (psg_of ivs2 2 2) (engine_const 6))) = [1, 1]
   \<and> absdiff 2 (sum_list [1, 1]) = 0
   \<and> \<not> in_intervals ivs2 1"
proof -
  have sp: "SumProbabilities ivs2 = 1" by (simp add: SumProbabilities_def ivs2_def rd_1)
  have g: "GenerateRandomValue ivs2 1 \<lparr>outputs = (\<lambda>_. 6), consumed = k\<rparr>
      = (26, \<lparr>outputs = (\<lambda>_. 6), consumed = k + 2\<rparr>)" for k
    by (simp add: GenerateRandomValue_def RandomDouble_def RandomUInt_def engine_next_def
        ivs2_def Let_def rd_1)
  have fill: "initial_fill ivs2 1 [0, 0] 0 (engine_const 6)
      = ([26, 26], 52, \<lparr>outputs = (\<lambda>_. 6), consumed = 4\<rparr>)"
    by (simp add: engine_const_def g)
  have d: "to_double 2 = 2" "to_double 50 = 50"
    by (simp_all add: to_double_def rd_numeral_exact)
  have prod: "rd (MAX_DIFF_RATIO * 2) = 5764607523034235 / 2 ^ 58"
    using rd_scale_up [of "5764607523034235 / 2 ^ 59 * 2" 58]
    by (simp add: MAX_DIFF_RATIO_eval round_even_def Let_def)
  have md: "maxDiff_of 2 = 50"
    unfolding maxDiff_of_def d prod MIN_DIFF_def
    by (simp add: to_uint64_def to_double_def rd_numeral_exact)
  have tmin: "targetMin_of 2 = 0"
    unfolding targetMin_of_def md d by simp
  have tmax: "targetMax_of 2 = 52"
    unfolding targetMax_of_def md d by (simp add: to_uint64_def rd_numeral_exact)
  have s: "search ivs2 2 2 [0, 0] (engine_const 6)
      = \<lparr>st_values = [26, 26], st_valuesSum = 52, st_bestValues = [26, 26], st_bestDiff = 50,
         st_rng = \<lparr>outputs = (\<lambda>_. 6), consumed = 4\<rparr>\<rparr>"
    unfolding search_def initial_state_def Let_def sp fill tmin tmax
    by (simp add: absdiff_def attempts_in_band)
  have q: "rd (50 / 2) = 25"
    using rd_nat_exact [of 25] by simp
  have ratio: "finalDiffRatio (search ivs2 2 2 [0, 0] (engine_const 6)) 2 = 25"
    unfolding finalDiffRatio_def s using q by (simp add: d)
  have fb: "finalDiffRatio (search ivs2 2 2 [0, 0] (engine_const 6)) 2
      > DIFF_RATIO_FALLBACK_TO_UNIFORM"
    unfolding ratio DIFF_RATIO_FALLBACK_TO_UNIFORM_eval by simp
  have rs: "resize 2 [] = [0, 0]" by (simp add: resize_def replicate_2)
  have out: "\<not> in_intervals ivs2 1"
    by (simp add: ivs2_def in_intervals_def word_le_nat_alt)
  have len: "length (st_values (search ivs2 2 2 [0, 0] (engine_const 6))) = 2"
    by (simp add: search_length)
  show ?thesis
    using out fb len
    by (simp add: Generate_def Let_def psg_of_def rs replicate_2 absdiff_def)
qed

text \<open>The table of flow.cpp is well formed once adjusted by a 14-byte Ethernet header.\<close>

lemma PACKET_SIZE_PROBABILITIES_wf:
  "AdjustPacketSizesToL3 14 PACKET_SIZE_PROBABILITIES_L2 =
     Inr [\<lparr>m_from = 50, m_to = 65, m_probability = rd 0.2824\<rparr>,
          \<lparr>m_from = 66, m_to = 145, m_probability = rd 0.073\<rparr>,
          \<lparr>m_from = 146, m_to = 305, m_probability = rd 0.0115\<rparr>,
          \<lparr>m_from = 306, m_to = 625, m_probability = rd 0.012\<rparr>,
          \<lparr>m_from = 626, m_to = 1265, m_probability = rd 0.0092\<rparr>,
          \<lparr>m_from = 1266, m_to = 1486, m_probability = rd 0.6119\<rparr>]
   \<and> (\<exists>ivs. AdjustPacketSizesToL3 14 PACKET_SIZE_PROBABILITIES_L2 = Inr ivs \<and> intervals_wf ivs)"
  by (simp add: PACKET_SIZE_PROBABILITIES_L2_def intervals_wf_def rd_nonneg)

section \<open>Properties of the flow planner\<close>

text \<open>
  C6, as claimed: IcmpRandom is selected exactly when the rule holds with
  \<open>bpp = (Bf + Br) / (Pf + Pr)\<close>. The code divides the two sums as \<^verbatim>\<open>uint64_t\<close>, dropping
  the remainder: a profile of 1 forward and 1 reverse packet with 71 bytes has 35 bytes
  per packet in the code, within \<open>1.10 * 32\<close>, and gets IcmpRandom, while its exact
  quotient 35.5 is above \<open>1.10 * 32 = 35.2\<close> and its \<open>ratioDiff\<close> is 0, so that the rule
  of the claim selects IcmpEcho.
\<close>

theorem MakeIcmpLayer_exact_quotient_differs:
  "MakeIcmpLayer hs0 Ipv4 (new_flow 1 1 71 0 (tv 1 0) (tv 2 0)) = Inr IcmpRandom
   \<and> ICMP_UNREACH_PKT_SIZE hs0 = 32
   \<and> \<not> claim_selects_random 32 1 1 71 0"
proof -
  have s: "ICMP_UNREACH_PKT_SIZE hs0 = 32"
    by (simp add: ICMP_UNREACH_PKT_SIZE_def hs0_def)
  have b: "bytesPerPkt (new_flow 1 1 71 0 (tv 1 0) (tv 2 0)) = 35"
    by (simp add: bytesPerPkt_def new_flow_def to_double_def rd_numeral_exact)
  have c: "\<not> claim_selects_random 32 1 1 71 0"
    by (simp add: claim_selects_random_def claim_bpp_def claim_ratioDiff_def)
  have m: "MakeIcmpLayer hs0 Ipv4 (new_flow 1 1 71 0 (tv 1 0) (tv 2 0)) = Inr IcmpRandom"
    unfolding MakeIcmpLayer_def s b unreach_limit_32 by (simp add: new_flow_def)
  show ?thesis using s c m by simp
qed

text \<open>
  C6, amended: for every profile, \<^verbatim>\<open>MakeIcmpLayer\<close> selects IcmpRandom (Icmpv6Random
  for IPv6) exactly when \<open>(Pf \<le> 3 or Pr \<le> 3) and bpp \<le> 1.10 * S_unreach\<close>, or
  \<open>ratioDiff > 0.2 and bpp \<le> 1.10 * S_unreach\<close>, and IcmpEcho (Icmpv6Echo) otherwise,
  where the numbers are those of the code: the sums \<open>Pf + Pr\<close> and \<open>Bf + Br\<close> are sums of
  64-bit unsigned integers, \<open>bpp\<close> is the whole-number quotient of the two sums converted
  to double (0 when the packet sum is 0), \<open>ratioDiff\<close> is \<open>1 - min / max\<close> computed in
  doubles from the counts converted to double (1 when the packet sum is 0), and the
  bounds are the doubles \<open>1.10 * S_unreach\<close> and \<open>0.2\<close>, with the size of the unreachable
  message of the family.
\<close>

theorem MakeIcmpLayer_selection:
  "MakeIcmpLayer hs Ipv4 flow =
     Inr (if amended_selects_random (ICMP_UNREACH_PKT_SIZE hs)
               (unat (m_fwdPackets flow)) (unat (m_revPackets flow))
               (unat (m_fwdBytes flow)) (unat (m_revBytes flow))
          then IcmpRandom else IcmpEcho)
   \<and> MakeIcmpLayer hs Ipv6 flow =
     Inr (if amended_selects_random (ICMPV6_UNREACH_PKT_SIZE hs)
               (unat (m_fwdPackets flow)) (unat (m_revPackets flow))
               (unat (m_fwdBytes flow)) (unat (m_revBytes flow))
          then Icmpv6Random else Icmpv6Echo)"
proof -
  have le3: "(w \<le> 3) = (unat w \<le> 3)" for w :: u64
    by (simp add: word_le_nat_alt)
  show ?thesis
    unfolding MakeIcmpLayer_def amended_selects_random_def
      fwdRevRatioDiff_amended [symmetric] bytesPerPkt_amended [symmetric]
      le3 [symmetric] unreach_limit_def
    by auto
qed

theorem MakeIcmpLayer_selection_witness:
  "MakeIcmpLayer hs0 Ipv4 (new_flow 1 0 30 0 (tv 1 0) (tv 2 0)) = Inr IcmpRandom
   \<and> MakeIcmpLayer hs0 Ipv6 (new_flow 1 0 30 0 (tv 1 0) (tv 2 0)) = Inr Icmpv6Random
   \<and> amended_selects_random 32 1 0 30 0
   \<and> MakeIcmpLayer hs0 Ipv4 (new_flow 10 10 5000 5000 (tv 1 0) (tv 2 0)) = Inr IcmpEcho
   \<and> \<not> amended_selects_random 32 10 10 5000 5000
   \<and> MakeIcmpLayer hs0 Ipv4 (new_flow 1 1 71 0 (tv 1 0) (tv 2 0)) = Inr IcmpRandom
   \<and> amended_selects_random 32 1 1 71 0"
proof -
  have s: "ICMP_UNREACH_PKT_SIZE hs0 = 32" "ICMPV6_UNREACH_PKT_SIZE hs0 = 56"
    by (simp_all add: ICMP_UNREACH_PKT_SIZE_def ICMPV6_UNREACH_PKT_SIZE_def hs0_def)
  have a: "amended_selects_random 32 1 0 30 0" "amended_selects_random 56 1 0 30 0"
    unfolding amended_selects_random_def unreach_limit_def [symmetric]
      unreach_limit_32 unreach_limit_56
    by (simp_all add: amended_bpp_def rd_numeral_exact)
  have b: "\<not> amended_selects_random 32 10 10 5000 5000"
    unfolding amended_selects_random_def unreach_limit_def [symmetric] unreach_limit_32
    by (simp add: amended_bpp_def rd_numeral_exact)
  have bpp: "amended_bpp 1 1 71 0 = 35"
    unfolding amended_bpp_def one_add_one by (simp add: rd_numeral_exact)
  have c: "amended_selects_random 32 1 1 71 0"
    unfolding amended_selects_random_def unreach_limit_def [symmetric] unreach_limit_32 bpp
    by simp
  show ?thesis
    using MakeIcmpLayer_selection [of hs0 "new_flow 1 0 30 0 (tv 1 0) (tv 2 0)"]
      MakeIcmpLayer_selection [of hs0 "new_flow 10 10 5000 5000 (tv 1 0) (tv 2 0)"]
      MakeIcmpLayer_selection [of hs0 "new_flow 1 1 71 0 (tv 1 0) (tv 2 0)"] a b c
    by (simp add: new_flow_def s)
qed

text \<open>
  The rounding of the doubles decides too: with \<open>2^53 + 1\<close> forward and 7205759403792794
  reverse packets (and no bytes) the exact \<open>ratioDiff\<close> is above 0.2, so that the rule of
  the claim selects IcmpRandom, while the forward count rounds to \<open>2^53\<close>, the difference
  computed in doubles is 0.19999999999999996, and the code selects IcmpEcho.
\<close>

lemma MakeIcmpLayer_rounded_ratio_differs:
  "MakeIcmpLayer hs0 Ipv4 (new_flow 9007199254740993 7205759403792794 0 0 (tv 1 0) (tv 2 0))
     = Inr IcmpEcho
   \<and> claim_selects_random 32 9007199254740993 7205759403792794 0 0"
proof -
  define flow where "flow = new_flow 9007199254740993 7205759403792794 0 0 (tv 1 0) (tv 2 0)"
  have f: "m_fwdPackets flow = 9007199254740993" "m_revPackets flow = 7205759403792794"
    "m_fwdBytes flow = 0" "m_revBytes flow = 0"
    by (simp_all add: flow_def new_flow_def)
  have s: "ICMP_UNREACH_PKT_SIZE hs0 = 32"
    by (simp add: ICMP_UNREACH_PKT_SIZE_def hs0_def)
  have big: "to_double 9007199254740993 = 9007199254740992"
    using rd_scale_down [of 9007199254740993 1]
    by (simp add: to_double_def round_even_def Let_def)
  have small: "to_double 7205759403792794 = 7205759403792794"
    by (simp add: to_double_def rd_numeral_exact)
  have q: "rd (7205759403792794 / 9007199254740992) = 7205759403792794 / 2 ^ 53"
    using rd_scale_up [of "7205759403792794 / 9007199254740992" 53]
    by (simp add: round_even_def Let_def)
  have d: "rd (1 - 7205759403792794 / 2 ^ 53) = 7205759403792792 / 2 ^ 55"
    using rd_scale_up [of "1 - 7205759403792794 / 2 ^ 53" 55]
    by (simp add: round_even_def Let_def)
  have mn: "min (9007199254740993::u64) 7205759403792794 = 7205759403792794"
    and mx: "max (9007199254740993::u64) 7205759403792794 = 9007199254740993"
    by simp_all
  have pos: "(9007199254740993::u64) + 7205759403792794 > 0" by simp
  have r: "fwdRevRatioDiff flow = 7205759403792792 / 2 ^ 55"
    unfolding fwdRevRatioDiff_def f mn mx big small q using pos d by simp
  have b: "bytesPerPkt flow = 0"
    by (simp add: bytesPerPkt_def f to_double_def rd_zero)
  have m: "MakeIcmpLayer hs0 Ipv4 flow = Inr IcmpEcho"
    unfolding MakeIcmpLayer_def s b r unreach_limit_32 rd_02 f by simp
  have c: "claim_selects_random 32 9007199254740993 7205759403792794 0 0"
    by (simp add: claim_selects_random_def claim_bpp_def claim_ratioDiff_def)
  show ?thesis using m c unfolding flow_def by simp
qed




text \<open>
  C7: for a flow with at least two packet plans, whose two timestamps have their
  microseconds within \<open>[0, 999999]\<close> and are in order (\<open>Ts \<le> Te\<close>, as every profile has
  them), \<^verbatim>\<open>PlanPacketsTimestamps\<close> keeps the number of plans and leaves their timestamps
  nondecreasing along the list, each within \<open>[Ts, Te]\<close>, the first equal to \<open>Ts\<close> and the
  last equal to \<open>Te\<close>, whatever the engine draws.
\<close>

theorem PlanPacketsTimestamps_ordered:
  assumes "tv_valid (m_tsFirst flow)" and "tv_valid (m_tsLast flow)"
    and "tv_le (m_tsFirst flow) (m_tsLast flow)"
    and "2 \<le> length (m_packets flow)"
  shows "length (m_packets (PlanPacketsTimestamps gen flow)) = length (m_packets flow)
    \<and> (\<forall>i. Suc i < length (m_packets flow) \<longrightarrow>
          tv_le (m_timestamp (m_packets (PlanPacketsTimestamps gen flow) ! i))
                (m_timestamp (m_packets (PlanPacketsTimestamps gen flow) ! Suc i)))
    \<and> (\<forall>p \<in> set (m_packets (PlanPacketsTimestamps gen flow)).
          tv_le (m_tsFirst flow) (m_timestamp p) \<and> tv_le (m_timestamp p) (m_tsLast flow))
    \<and> m_timestamp (hd (m_packets (PlanPacketsTimestamps gen flow))) = m_tsFirst flow
    \<and> m_timestamp (last (m_packets (PlanPacketsTimestamps gen flow))) = m_tsLast flow"
proof -
  define n where "n = length (m_packets flow) - 2"
  define drawn where "drawn = fst (gen_timestamps n (m_tsFirst flow) (m_tsLast flow) gen)"
  define ts where "ts = sort_key tv_key ([m_tsFirst flow, m_tsLast flow] @ drawn)"
  define ps where "ps = m_packets (PlanPacketsTimestamps gen flow)"
  have n_eq: "(if length (m_packets flow) > 2 then length (m_packets flow) - 2 else 0) = n"
    using assms(4) by (simp add: n_def)
  have ps_eq: "ps = map2 (\<lambda>packet t. packet\<lparr>m_timestamp := t\<rparr>) (m_packets flow) ts"
    by (simp add: ps_def PlanPacketsTimestamps_def Let_def n_eq ts_def drawn_def)
  have len_ts: "length ts = length (m_packets flow)"
    using assms(4) by (simp add: ts_def drawn_def gen_timestamps_length n_def)
  have stamps: "map m_timestamp ps = ts"
    unfolding ps_eq by (rule map2_timestamps [OF len_ts])
  have len_ps: "length ps = length (m_packets flow)"
    using stamps len_ts by (metis length_map)
  have ne: "ps \<noteq> []" "ts \<noteq> []"
    using len_ps len_ts assms(4) by auto
  have sorted_ts: "sorted (map tv_key ts)"
    unfolding ts_def by (rule sorted_sort_key)
  have "set ts = set ([m_tsFirst flow, m_tsLast flow] @ drawn)"
    unfolding ts_def by (rule set_sort)
  then have set_ts: "set ts = {m_tsFirst flow, m_tsLast flow} \<union> set drawn"
    by simp
  have range: "tv_le (m_tsFirst flow) t \<and> tv_le t (m_tsLast flow)" if "t \<in> set ts" for t
  proof -
    from that set_ts consider "t = m_tsFirst flow" | "t = m_tsLast flow" | "t \<in> set drawn"
      by auto
    then show ?thesis
    proof cases
      case 1
      then show ?thesis using assms(3) by (simp add: tv_le_key)
    next
      case 2
      then show ?thesis using assms(3) by (simp add: tv_le_key)
    next
      case 3
      then show ?thesis
        unfolding drawn_def by (rule gen_timestamps_range [OF assms(1-3)])
    qed
  qed
  have nondecreasing: "tv_le (m_timestamp (ps ! i)) (m_timestamp (ps ! Suc i))"
    if "Suc i < length (m_packets flow)" for i
  proof -
    have "map tv_key ts ! i \<le> map tv_key ts ! Suc i"
      using sorted_ts that len_ts by (intro sorted_nth_mono) simp_all
    then have "tv_key (ts ! i) \<le> tv_key (ts ! Suc i)"
      using that len_ts by simp
    moreover have "ts ! i = m_timestamp (ps ! i)" "ts ! Suc i = m_timestamp (ps ! Suc i)"
      using that len_ps stamps [symmetric] by simp_all
    ultimately show ?thesis by (simp add: tv_le_key)
  qed
  have in_range: "tv_le (m_tsFirst flow) (m_timestamp p) \<and> tv_le (m_timestamp p) (m_tsLast flow)"
    if "p \<in> set ps" for p
  proof -
    have "m_timestamp p \<in> set (map m_timestamp ps)" using that by simp
    then show ?thesis using range stamps by simp
  qed
  have first: "m_timestamp (hd ps) = m_tsFirst flow"
  proof -
    have hd_eq: "m_timestamp (hd ps) = hd ts"
      using stamps ne by (metis hd_map)
    have "tv_key (hd ts) \<le> tv_key (m_tsFirst flow)"
      using sorted_key_hd_least [OF sorted_ts, of "m_tsFirst flow"] set_ts by simp
    moreover have "tv_key (m_tsFirst flow) \<le> tv_key (hd ts)"
      using range [of "hd ts"] ne by (simp add: tv_le_key)
    ultimately show ?thesis
      using hd_eq tv_key_inj [of "hd ts" "m_tsFirst flow"] by simp
  qed
  have final: "m_timestamp (last ps) = m_tsLast flow"
  proof -
    have last_eq: "m_timestamp (last ps) = last ts"
      using stamps ne by (metis last_map)
    have "tv_key (m_tsLast flow) \<le> tv_key (last ts)"
      using sorted_key_last_greatest [OF sorted_ts, of "m_tsLast flow"] set_ts by simp
    moreover have "tv_key (last ts) \<le> tv_key (m_tsLast flow)"
      using range [of "last ts"] ne by (simp add: tv_le_key)
    ultimately show ?thesis
      using last_eq tv_key_inj [of "last ts" "m_tsLast flow"] by simp
  qed
  show ?thesis
    using len_ps nondecreasing in_range first final unfolding ps_def by blast
qed

theorem PlanPacketsTimestamps_ordered_witness:
  "tv_valid (m_tsFirst flow3) \<and> tv_valid (m_tsLast flow3)
   \<and> tv_le (m_tsFirst flow3) (m_tsLast flow3) \<and> 2 \<le> length (m_packets flow3)
   \<and> length (m_packets (PlanPacketsTimestamps (engine_const 1) flow3)) = 3
   \<and> m_timestamp (hd (m_packets (PlanPacketsTimestamps (engine_const 1) flow3))) = tv 1 500000
   \<and> m_timestamp (last (m_packets (PlanPacketsTimestamps (engine_const 1) flow3))) = tv 2 500000
   \<and> tv_le (m_timestamp (m_packets (PlanPacketsTimestamps (engine_const 1) flow3) ! 0))
            (m_timestamp (m_packets (PlanPacketsTimestamps (engine_const 1) flow3) ! 1))
   \<and> tv_le (m_timestamp (m_packets (PlanPacketsTimestamps (engine_const 1) flow3) ! 1))
            (m_timestamp (m_packets (PlanPacketsTimestamps (engine_const 1) flow3) ! 2))"
proof -
  have v: "tv_valid (m_tsFirst flow3)" "tv_valid (m_tsLast flow3)"
    "tv_le (m_tsFirst flow3) (m_tsLast flow3)" "2 \<le> length (m_packets flow3)"
    by (simp_all add: flow3_def new_flow_def tv_def tv_valid_def tv_le_def tv_less_def)
  have ts: "m_tsFirst flow3 = tv 1 500000" "m_tsLast flow3 = tv 2 500000"
    by (simp_all add: flow3_def new_flow_def)
  have i: "Suc 0 < length (m_packets flow3)" "Suc 1 < length (m_packets flow3)"
    by (simp_all add: flow3_packets)
  show ?thesis
    using PlanPacketsTimestamps_ordered [OF v, of "engine_const 1"] v ts i
    by (simp add: flow3_packets numeral_2_eq_2)
qed

text \<open>
  C1: two runs over the same profile, configuration and seeds are claimed to give the
  same timestamps, the timestamp step drawing from the shared seeded RandomGenerator as
  \<^verbatim>\<open>ChooseEncaps\<close> and \<^verbatim>\<open>GenerateRandomValue\<close> do. \<^verbatim>\<open>PlanPacketsTimestamps\<close> does not
  read the shared generator: it draws from an engine that \<^verbatim>\<open>std::random_device\<close> seeds
  anew at each call. For the same flow, two such engines give different inner timestamps.
\<close>

theorem PlanPacketsTimestamps_not_reproducible:
  "map m_timestamp (m_packets (PlanPacketsTimestamps (engine_const 0) flow3))
     = [tv 1 500000, tv 1 500000, tv 2 500000]
   \<and> map m_timestamp (m_packets (PlanPacketsTimestamps (engine_const 1) flow3))
     = [tv 1 500000, tv 2 1, tv 2 500000]"
  by (simp add: PlanPacketsTimestamps_def flow3_def new_flow_def tv_def replicate_3 Let_def
      uniform_int_distribution_def engine_next_def engine_const_def tv_key_def)

end
